theory Spec2Isabelle
  imports Complex_Main
begin

section \<open>Data model of the task orchestration engine\<close>

text \<open>
  The orchestrator (\<^verbatim>\<open>agent/orchestrator.py\<close>) keeps its tasks in a dictionary of
  dictionaries. Each task dictionary is a record here, each step dictionary a record, and
  the \<^verbatim>\<open>TaskStatus\<close> enumeration a datatype whose \<^verbatim>\<open>.value\<close> strings are given by
  \<open>status_value\<close>. Step statuses are plain, unvalidated strings in the source and stay
  strings. Timestamps are readings of a clock that the environment advances.
\<close>

datatype TaskStatus =
  PENDING | PLANNING | EXECUTING | SUCCEEDED | FAILED | CANCELLED | WAITING_FOR_APPROVAL

fun status_value :: "TaskStatus \<Rightarrow> string" where
  "status_value PENDING = ''pending''"
| "status_value PLANNING = ''planning''"
| "status_value EXECUTING = ''executing''"
| "status_value SUCCEEDED = ''succeeded''"
| "status_value FAILED = ''failed''"
| "status_value CANCELLED = ''cancelled''"
| "status_value WAITING_FOR_APPROVAL = ''waiting_for_approval''"

text \<open>The enumeration's constructor \<^verbatim>\<open>TaskStatus(status)\<close>; \<open>None\<close> is its ValueError.\<close>

definition TaskStatus_of :: "string \<Rightarrow> TaskStatus option" where
  "TaskStatus_of v =
     (if v = ''pending'' then Some PENDING
      else if v = ''planning'' then Some PLANNING
      else if v = ''executing'' then Some EXECUTING
      else if v = ''succeeded'' then Some SUCCEEDED
      else if v = ''failed'' then Some FAILED
      else if v = ''cancelled'' then Some CANCELLED
      else if v = ''waiting_for_approval'' then Some WAITING_FOR_APPROVAL
      else None)"

text \<open>
  Dynamically typed values (parameters, result details). A dictionary is an association
  list; Python's \<^verbatim>\<open>==\<close> on values is modelled by equality of these terms. The two
  differ where Python equates values of different shape: \<^verbatim>\<open>1 == True\<close>, and two
  dictionaries with the same entries in a different order. Floats are not modelled.
\<close>

datatype pyval =
  PNone | PBool bool | PInt int | PStr string | PList "pyval list" | PDict "(string \<times> pyval) list"

type_synonym params = "(string \<times> pyval) list"

text \<open>
  Exceptions, and the text \<^verbatim>\<open>str(e)\<close> that the worker records. For a KeyError that
  is \<^verbatim>\<open>repr\<close> of the key: in single quotes, or in double quotes when the key holds a
  single quote and no double quote; backslashes and the enclosing quote are escaped.
  The escapes that \<^verbatim>\<open>repr\<close> writes for control and non-ASCII characters are not modelled.
\<close>

datatype exn =
  KeyError string | ValueError string | IndexError string | TypeError string | Exception string

definition quoted :: "string \<Rightarrow> string" where
  "quoted x = [CHR 0x27] @ x @ [CHR 0x27]"

definition escape :: "char \<Rightarrow> char \<Rightarrow> string" where
  "escape q c = (if c = CHR 0x5C \<or> c = q then [CHR 0x5C, c] else [c])"

definition py_repr :: "string \<Rightarrow> string" where
  "py_repr x =
     (if CHR 0x27 \<in> set x \<and> CHR 0x22 \<notin> set x
      then [CHR 0x22] @ concat (map (escape (CHR 0x22)) x) @ [CHR 0x22]
      else [CHR 0x27] @ concat (map (escape (CHR 0x27)) x) @ [CHR 0x27])"

fun str_exn :: "exn \<Rightarrow> string" where
  "str_exn (KeyError m) = py_repr m"
| "str_exn (ValueError m) = m"
| "str_exn (IndexError m) = m"
| "str_exn (TypeError m) = m"
| "str_exn (Exception m) = m"

text \<open>What an agent's \<^verbatim>\<open>execute_step\<close> returns.\<close>

record StepResult =
  sr_status :: string
  sr_message :: string
  sr_details :: pyval

record step =
  s_description :: string
  s_status :: string
  s_created_at :: nat
  s_updated_at :: nat
  s_result :: "StepResult option"
  s_error :: "string option"

record task =
  t_id :: string
  t_type :: string
  t_description :: string
  t_parameters :: params
  t_priority :: string
  t_status :: TaskStatus
  t_created_at :: nat
  t_updated_at :: nat
  t_steps :: "step list"
  t_result :: "pyval option"
  t_error :: "string option"

text \<open>
  The state of \<^verbatim>\<open>AgentOrchestrator\<close> that the task operations touch: the task
  dictionary, the keys of the active-thread dictionary, and the clock read by
  \<^verbatim>\<open>_get_timestamp\<close>.
\<close>

record orchestrator =
  tasks :: "string \<rightharpoonup> task"
  active_tasks :: "string set"
  clock :: nat

definition not_found :: "string \<Rightarrow> exn" where
  "not_found task_id = KeyError (''Task '' @ task_id @ '' not found'')"

section \<open>Task store operations\<close>

text \<open>
  Every operation below runs under \<^verbatim>\<open>task_lock\<close> in the source, so each is one atomic
  transition of the store. A raised exception is \<open>Inl\<close> and leaves the store as it was.
\<close>

definition new_task :: "string \<Rightarrow> string \<Rightarrow> string \<Rightarrow> params \<Rightarrow> string \<Rightarrow> nat \<Rightarrow> task" where
  "new_task task_id task_type description parameters priority now =
     \<lparr>t_id = task_id, t_type = task_type, t_description = description,
      t_parameters = parameters, t_priority = priority, t_status = PENDING,
      t_created_at = now, t_updated_at = now, t_steps = [], t_result = None,
      t_error = None\<rparr>"

text \<open>
  \<^verbatim>\<open>create_task\<close> draws the identifier from \<^verbatim>\<open>uuid4\<close>; here the caller supplies it.
  It stores the task and registers the worker thread (\<^verbatim>\<open>_start_task_execution\<close>).
\<close>

definition create_task ::
  "string \<Rightarrow> string \<Rightarrow> string \<Rightarrow> params \<Rightarrow> string \<Rightarrow> orchestrator \<Rightarrow> orchestrator" where
  "create_task task_id task_type description parameters priority s =
     s\<lparr>tasks := (tasks s)(task_id \<mapsto>
            new_task task_id task_type description parameters priority (clock s)),
       active_tasks := insert task_id (active_tasks s)\<rparr>"

definition get_task :: "string \<Rightarrow> orchestrator \<Rightarrow> exn + task" where
  "get_task task_id s =
     (case tasks s task_id of
        None \<Rightarrow> Inl (not_found task_id)
      | Some t \<Rightarrow> Inr t)"

definition update_task_status :: "string \<Rightarrow> string \<Rightarrow> orchestrator \<Rightarrow> exn + orchestrator" where
  "update_task_status task_id status s =
     (case TaskStatus_of status of
        None \<Rightarrow> Inl (ValueError (''Invalid task status: '' @ status))
      | Some st \<Rightarrow>
          (case tasks s task_id of
             None \<Rightarrow> Inl (not_found task_id)
           | Some t \<Rightarrow>
               Inr (s\<lparr>tasks := (tasks s)(task_id \<mapsto>
                          t\<lparr>t_status := st, t_updated_at := clock s\<rparr>)\<rparr>)))"

definition add_task_result :: "string \<Rightarrow> pyval \<Rightarrow> orchestrator \<Rightarrow> exn + orchestrator" where
  "add_task_result task_id res s =
     (case tasks s task_id of
        None \<Rightarrow> Inl (not_found task_id)
      | Some t \<Rightarrow>
          Inr (s\<lparr>tasks := (tasks s)(task_id \<mapsto>
                     t\<lparr>t_result := Some res, t_updated_at := clock s\<rparr>)\<rparr>))"

definition add_task_error :: "string \<Rightarrow> string \<Rightarrow> orchestrator \<Rightarrow> exn + orchestrator" where
  "add_task_error task_id err s =
     (case tasks s task_id of
        None \<Rightarrow> Inl (not_found task_id)
      | Some t \<Rightarrow>
          Inr (s\<lparr>tasks := (tasks s)(task_id \<mapsto>
                     t\<lparr>t_error := Some err, t_updated_at := clock s\<rparr>)\<rparr>))"

definition new_step :: "string \<Rightarrow> string \<Rightarrow> nat \<Rightarrow> step" where
  "new_step step_description step_status now =
     \<lparr>s_description = step_description, s_status = step_status, s_created_at = now,
      s_updated_at = now, s_result = None, s_error = None\<rparr>"

text \<open>\<^verbatim>\<open>add_task_step\<close> returns the new step's index with the updated store.\<close>

definition add_task_step ::
  "string \<Rightarrow> string \<Rightarrow> string \<Rightarrow> orchestrator \<Rightarrow> exn + (nat \<times> orchestrator)" where
  "add_task_step task_id step_description step_status s =
     (case tasks s task_id of
        None \<Rightarrow> Inl (not_found task_id)
      | Some t \<Rightarrow>
          Inr (length (t_steps t),
               s\<lparr>tasks := (tasks s)(task_id \<mapsto>
                    t\<lparr>t_steps := t_steps t @ [new_step step_description step_status (clock s)],
                      t_updated_at := clock s\<rparr>)\<rparr>))"

definition update_step ::
  "string option \<Rightarrow> StepResult option \<Rightarrow> string option \<Rightarrow> nat \<Rightarrow> step \<Rightarrow> step" where
  "update_step status res err now st =
     st\<lparr>s_status := (case status of None \<Rightarrow> s_status st | Some v \<Rightarrow> v),
        s_result := (case res of None \<Rightarrow> s_result st | Some r \<Rightarrow> Some r),
        s_error := (case err of None \<Rightarrow> s_error st | Some e \<Rightarrow> Some e),
        s_updated_at := now\<rparr>"

text \<open>
  \<^verbatim>\<open>update_task_step\<close>; arguments left at \<^verbatim>\<open>None\<close> keep the field. The text of
  the IndexError leaves out the decimal rendering of the index.
\<close>

definition update_task_step ::
  "string \<Rightarrow> int \<Rightarrow> string option \<Rightarrow> StepResult option \<Rightarrow> string option \<Rightarrow>
   orchestrator \<Rightarrow> exn + orchestrator" where
  "update_task_step task_id step_index status res err s =
     (case tasks s task_id of
        None \<Rightarrow> Inl (not_found task_id)
      | Some t \<Rightarrow>
          if step_index < 0 \<or> step_index \<ge> int (length (t_steps t))
          then Inl (IndexError (''Step index out of range for task '' @ task_id))
          else Inr (s\<lparr>tasks := (tasks s)(task_id \<mapsto>
                        t\<lparr>t_steps := (t_steps t)[nat step_index :=
                               update_step status res err (clock s) (t_steps t ! nat step_index)],
                          t_updated_at := clock s\<rparr>)\<rparr>))"

definition approve_task :: "string \<Rightarrow> orchestrator \<Rightarrow> exn + orchestrator" where
  "approve_task task_id s =
     (case tasks s task_id of
        None \<Rightarrow> Inl (not_found task_id)
      | Some t \<Rightarrow>
          if t_status t \<noteq> WAITING_FOR_APPROVAL
          then Inl (ValueError (''Task '' @ task_id @ '' is not waiting for approval''))
          else update_task_status task_id (status_value EXECUTING) s)"

definition cancel_task :: "string \<Rightarrow> orchestrator \<Rightarrow> exn + orchestrator" where
  "cancel_task task_id s =
     (case tasks s task_id of
        None \<Rightarrow> Inl (not_found task_id)
      | Some t \<Rightarrow>
          (case update_task_status task_id (status_value CANCELLED) s of
             Inl e \<Rightarrow> Inl e
           | Inr s' \<Rightarrow> Inr (s'\<lparr>active_tasks := active_tasks s' - {task_id}\<rparr>)))"

text \<open>The status of a stored task, as a caller polling \<^verbatim>\<open>get_task\<close> sees it.\<close>

definition status_of :: "string \<Rightarrow> orchestrator \<Rightarrow> TaskStatus option" where
  "status_of task_id s = map_option t_status (tasks s task_id)"

section \<open>Task planner\<close>

text \<open>
  \<^verbatim>\<open>task_planner/planner.py\<close>. A plan is a summary with an ordered list of step
  specifications. The language-model chain and its output parser are a collaborator:
  \<open>planning_chain\<close> either yields the parsed plan or raises.
\<close>

record plan_step =
  ps_description :: string
  ps_agent_type :: string
  ps_requires_approval :: bool
  ps_critical :: bool
  ps_parameters :: params

record plan =
  p_task_id :: string
  p_summary :: string
  p_steps :: "plan_step list"

definition fallback_plan :: "task \<Rightarrow> plan" where
  "fallback_plan task =
     \<lparr>p_task_id = t_id task,
      p_summary = ''Basic plan for '' @ t_type task @ '' (fallback due to planning error)'',
      p_steps =
        [\<lparr>ps_description = ''Execute '' @ t_type task @ '' operation'',
          ps_agent_type = ''execution'', ps_requires_approval = True, ps_critical = True,
          ps_parameters = t_parameters task\<rparr>,
         \<lparr>ps_description = ''Verify '' @ t_type task @ '' operation result'',
          ps_agent_type = ''validation'', ps_requires_approval = False, ps_critical = False,
          ps_parameters = []\<rparr>]\<rparr>"

definition add_default_checks :: "string list \<Rightarrow> plan \<Rightarrow> plan" where
  "add_default_checks default_checks pl =
     pl\<lparr>p_steps := p_steps pl
        @ (if ''syntax_validation'' \<in> set default_checks
           then [\<lparr>ps_description = ''Perform syntax validation on executed commands'',
                  ps_agent_type = ''validation'', ps_requires_approval = False,
                  ps_critical = False, ps_parameters = [(''type'', PStr ''syntax'')]\<rparr>]
           else [])
        @ (if ''security_scan'' \<in> set default_checks
           then [\<lparr>ps_description = ''Perform security scan on changes'',
                  ps_agent_type = ''validation'', ps_requires_approval = False,
                  ps_critical = True, ps_parameters = [(''type'', PStr ''security'')]\<rparr>]
           else [])
        @ (if ''impact_assessment'' \<in> set default_checks
           then [\<lparr>ps_description = ''Assess impact of changes'',
                  ps_agent_type = ''diagnostics'', ps_requires_approval = False,
                  ps_critical = False, ps_parameters = [(''type'', PStr ''impact'')]\<rparr>]
           else [])\<rparr>"

text \<open>
  \<^verbatim>\<open>TaskPlanner.create_plan\<close>: the whole generation sits in a \<^verbatim>\<open>try\<close> whose handler
  catches every exception and returns the fallback plan.
\<close>

definition create_plan :: "(task \<Rightarrow> exn + plan) \<Rightarrow> string list \<Rightarrow> task \<Rightarrow> plan" where
  "create_plan planning_chain default_checks task =
     (case planning_chain task of
        Inl e \<Rightarrow> fallback_plan task
      | Inr pl \<Rightarrow>
          (let plan_dict = pl\<lparr>p_task_id := t_id task\<rparr>
           in if default_checks \<noteq> [] then add_default_checks default_checks plan_dict
              else plan_dict))"

section \<open>Task manager agent: plan reuse\<close>

text \<open>Tasks as the knowledge base returns them (rows of its database).\<close>

record kb_step =
  ks_description :: string
  ks_status :: string
  ks_agent_type :: "string option"

record kb_task =
  k_id :: string
  k_type :: string
  k_status :: string
  k_parameters :: params
  k_steps :: "kb_step list"

text \<open>
  \<^verbatim>\<open>_parameter_similarity\<close>. Python computes in binary floating point; the model
  computes the same expression over the reals.
\<close>

definition parameter_similarity :: "params \<Rightarrow> params \<Rightarrow> real" where
  "parameter_similarity params1 params2 =
     (if params1 = [] \<and> params2 = [] then 1
      else if params1 = [] \<or> params2 = [] then 0
      else
        (let keys1 = set (map fst params1);
             keys2 = set (map fst params2);
             shared_keys = keys1 \<inter> keys2;
             all_keys = keys1 \<union> keys2
         in if shared_keys = {} then 0
            else
              (let value_matches =
                     card {key \<in> shared_keys. map_of params1 key = map_of params2 key};
                   key_similarity = real (card shared_keys) / real (card all_keys);
                   value_similarity = real value_matches / real (card shared_keys)
               in 0.6 * key_similarity + 0.4 * value_similarity)))"

text \<open>The test of the reuse loop in \<^verbatim>\<open>plan_task\<close>.\<close>

definition reusable :: "task \<Rightarrow> kb_task \<Rightarrow> bool" where
  "reusable task similar_task \<longleftrightarrow>
     k_type similar_task = t_type task \<and> k_status similar_task = ''succeeded'' \<and>
     parameter_similarity (t_parameters task) (k_parameters similar_task) > 0.8"

fun steps_from_similar :: "nat \<Rightarrow> kb_step list \<Rightarrow> plan_step list" where
  "steps_from_similar i [] = []"
| "steps_from_similar i (st # rest) =
     (if ks_status st = ''succeeded''
      then \<lparr>ps_description = ks_description st,
            ps_agent_type = (case ks_agent_type st of None \<Rightarrow> ''execution'' | Some a \<Rightarrow> a),
            ps_requires_approval = (i = 0), ps_critical = (i = 0),
            ps_parameters = []\<rparr> # steps_from_similar (Suc i) rest
      else steps_from_similar (Suc i) rest)"

definition create_plan_from_similar_task :: "task \<Rightarrow> kb_task \<Rightarrow> plan" where
  "create_plan_from_similar_task current_task similar_task =
     \<lparr>p_task_id = t_id current_task,
      p_summary = ''Plan for '' @ t_type current_task @ '' based on similar task ''
                  @ k_id similar_task,
      p_steps = steps_from_similar 0 (k_steps similar_task)\<rparr>"

section \<open>Collaborators and configuration\<close>

text \<open>
  What the worker consumes from outside the task store: the agent registry (each agent
  reduced to its \<^verbatim>\<open>execute_step\<close>), the knowledge base queries, the planner's chain, the
  learning agent's \<^verbatim>\<open>learn_from_task\<close>, and two configuration entries.
\<close>

type_synonym agent = "task \<Rightarrow> plan_step \<Rightarrow> nat \<Rightarrow> exn + StepResult"

record env =
  agents :: "string \<rightharpoonup> agent"
  search_similar_tasks :: "string \<Rightarrow> exn + kb_task list"
  kb_get_task :: "string \<Rightarrow> exn + kb_task option"
  reuse_similar_plans :: bool
  planning_chain :: "task \<Rightarrow> exn + plan"
  default_checks :: "string list"
  learn_from_task :: "string \<Rightarrow> task \<Rightarrow> exn + unit"

text \<open>
  \<^verbatim>\<open>TaskManagerAgent.plan_task\<close>. The loop takes the first reusable task
  (\<open>similar_task_id\<close> is the variable it leaves behind); the plan is reused only if
  that identifier is a non-empty string, otherwise the planner is asked
  (\<open>plan_from_planner\<close> is the call \<^verbatim>\<open>task_planner.create_plan(task)\<close>). A knowledge
  base that no longer holds the chosen task returns \<^verbatim>\<open>None\<close>, on which
  \<^verbatim>\<open>similar_task.get\<close> raises. The agent's private dictionary of plans is not read
  by the orchestrator and is left out.
\<close>

definition similar_task_id :: "env \<Rightarrow> task \<Rightarrow> kb_task list \<Rightarrow> string option" where
  "similar_task_id env task similar_tasks =
     (if similar_tasks \<noteq> [] \<and> reuse_similar_plans env
      then map_option k_id (find (reusable task) similar_tasks)
      else None)"

definition plan_from_planner :: "env \<Rightarrow> task \<Rightarrow> plan" where
  "plan_from_planner env task = create_plan (planning_chain env) (default_checks env) task"

definition plan_task :: "env \<Rightarrow> task \<Rightarrow> exn + plan" where
  "plan_task env task =
     (case search_similar_tasks env (t_description task) of
        Inl e \<Rightarrow> Inl e
      | Inr similar_tasks \<Rightarrow>
          (case similar_task_id env task similar_tasks of
             Some sid \<Rightarrow>
               if sid \<noteq> []
               then (case kb_get_task env sid of
                       Inl e \<Rightarrow> Inl e
                     | Inr None \<Rightarrow>
                         Inl (Exception (quoted ''NoneType'' @ '' object has no attribute ''
                                         @ quoted ''get''))
                     | Inr (Some similar_task) \<Rightarrow>
                         Inr (create_plan_from_similar_task task similar_task))
               else Inr (plan_from_planner env task)
           | None \<Rightarrow> Inr (plan_from_planner env task)))"

section \<open>The registered agents\<close>

text \<open>
  \<^verbatim>\<open>execute_step\<close> of the five agents built in \<^verbatim>\<open>AgentOrchestrator.__init__\<close>. Four
  of them are placeholders returning a constant. The execution agent chooses a backend
  from the step parameters. A backend (process, SSH, Ansible) is a collaborator: given
  the parameters it returns a result dictionary, whose status tells success from error
  and timeout, or it raises (the local script backend, for one, writes its temporary
  file outside its \<^verbatim>\<open>try\<close>).
\<close>

fun truthy :: "pyval \<Rightarrow> bool" where
  "truthy PNone = False"
| "truthy (PBool b) = b"
| "truthy (PInt n) = (n \<noteq> 0)"
| "truthy (PStr x) = (x \<noteq> [])"
| "truthy (PList xs) = (xs \<noteq> [])"
| "truthy (PDict kvs) = (kvs \<noteq> [])"

record backends =
  execute_local_command :: "params \<Rightarrow> exn + StepResult"
  execute_remote_command :: "params \<Rightarrow> exn + StepResult"
  execute_local_script :: "params \<Rightarrow> exn + StepResult"
  execute_remote_script :: "params \<Rightarrow> exn + StepResult"
  execute_ansible_playbook :: "params \<Rightarrow> exn + StepResult"

definition remote :: "params \<Rightarrow> bool" where
  "remote ps = (case map_of ps ''remote'' of None \<Rightarrow> False | Some v \<Rightarrow> truthy v)"

definition execution_execute_step :: "backends \<Rightarrow> agent" where
  "execution_execute_step b task stp step_index =
     (let ps = ps_parameters stp
      in if ''command'' \<in> fst ` set ps then
           (if remote ps then execute_remote_command b ps else execute_local_command b ps)
         else if ''script'' \<in> fst ` set ps then
           (if remote ps then execute_remote_script b ps else execute_local_script b ps)
         else if ''ansible_playbook'' \<in> fst ` set ps then
           execute_ansible_playbook b ps
         else
           Inr \<lparr>sr_status = ''error'', sr_message = ''Unknown execution type'',
                sr_details = PStr (''The step parameters must include '' @ quoted ''command''
                                  @ '', '' @ quoted ''script'' @ '', or ''
                                  @ quoted ''ansible_playbook'')\<rparr>)"

definition validation_execute_step :: agent where
  "validation_execute_step task stp step_index =
     (let validation_type =
            (case map_of (ps_parameters stp) ''type'' of None \<Rightarrow> PStr ''general'' | Some v \<Rightarrow> v)
      in if validation_type = PStr ''syntax'' then
           Inr \<lparr>sr_status = ''success'', sr_message = ''Syntax validation passed'',
                sr_details = PDict [(''issues'', PList [])]\<rparr>
         else if validation_type = PStr ''security'' then
           Inr \<lparr>sr_status = ''success'', sr_message = ''Security validation passed'',
                sr_details = PDict [(''vulnerabilities'', PList []),
                                    (''recommendations'', PList [])]\<rparr>
         else if validation_type = PStr ''configuration'' then
           Inr \<lparr>sr_status = ''success'', sr_message = ''Configuration validation passed'',
                sr_details = PDict [(''issues'', PList []), (''warnings'', PList []),
                                    (''recommendations'', PList [])]\<rparr>
         else if validation_type = PStr ''result'' then
           Inr \<lparr>sr_status = ''success'', sr_message = ''Result validation passed'',
                sr_details = PDict [(''expected'', PStr ''Expected result''),
                                    (''actual'', PStr ''Actual result''),
                                    (''differences'', PList [])]\<rparr>
         else
           Inr \<lparr>sr_status = ''success'', sr_message = ''General validation passed'',
                sr_details = PDict [(''issues'', PList [])]\<rparr>)"

definition task_manager_execute_step :: agent where
  "task_manager_execute_step task stp step_index =
     Inr \<lparr>sr_status = ''success'', sr_message = ''Task manager coordinated step execution'',
          sr_details = PNone\<rparr>"

definition diagnostics_execute_step :: agent where
  "diagnostics_execute_step task stp step_index =
     Inr \<lparr>sr_status = ''success'', sr_message = ''Diagnostic step executed successfully'',
          sr_details = PDict [(''diagnosis'', PStr ''No issues detected''),
                              (''recommendations'', PList [])]\<rparr>"

definition learning_execute_step :: agent where
  "learning_execute_step task stp step_index =
     Inr \<lparr>sr_status = ''success'', sr_message = ''Learning step executed successfully'',
          sr_details = PDict [(''learned_patterns'', PList []),
                              (''recommendations'', PList [])]\<rparr>"

text \<open>The registry \<^verbatim>\<open>self.agents\<close>.\<close>

definition registry :: "backends \<Rightarrow> string \<rightharpoonup> agent" where
  "registry b =
     [''task_manager'' \<mapsto> task_manager_execute_step,
      ''diagnostics'' \<mapsto> diagnostics_execute_step,
      ''execution'' \<mapsto> execution_execute_step b,
      ''learning'' \<mapsto> learning_execute_step,
      ''validation'' \<mapsto> validation_execute_step]"

section \<open>Learning agent\<close>

text \<open>
  \<^verbatim>\<open>LearningAgent.learn_from_task\<close> (\<^verbatim>\<open>agent/learning.py\<close>). It reads the details of
  the results of the succeeded steps with \<^verbatim>\<open>in\<close> and with indexing, whatever the type
  of the details is: \<^verbatim>\<open>in\<close> is key membership on a dictionary, a substring test on a
  string, element membership on a list and a TypeError otherwise; indexing by a string
  works on a dictionary only. An exception leaves the function at once.
\<close>

fun starts_with :: "string \<Rightarrow> string \<Rightarrow> bool" where
  "starts_with [] s = True"
| "starts_with (c # cs) [] = False"
| "starts_with (c # cs) (d # ds) = (c = d \<and> starts_with cs ds)"

fun contains :: "string \<Rightarrow> string \<Rightarrow> bool" where
  "contains sub [] = (sub = [])"
| "contains sub (c # cs) = (starts_with sub (c # cs) \<or> contains sub cs)"

definition py_in :: "string \<Rightarrow> pyval \<Rightarrow> exn + bool" where
  "py_in k v =
     (case v of
        PDict kvs \<Rightarrow> Inr (k \<in> fst ` set kvs)
      | PStr x \<Rightarrow> Inr (contains k x)
      | PList xs \<Rightarrow> Inr (PStr k \<in> set xs)
      | _ \<Rightarrow> Inl (TypeError ''argument is not iterable''))"

definition py_index :: "pyval \<Rightarrow> string \<Rightarrow> exn + pyval" where
  "py_index v k =
     (case v of
        PDict kvs \<Rightarrow> (case map_of kvs k of None \<Rightarrow> Inl (KeyError k) | Some x \<Rightarrow> Inr x)
      | PStr x \<Rightarrow> Inl (TypeError ''string indices must be integers'')
      | PList xs \<Rightarrow> Inl (TypeError ''list indices must be integers or slices, not str'')
      | _ \<Rightarrow> Inl (TypeError ''object is not subscriptable''))"

text \<open>Sequencing of statements that may raise.\<close>

definition and_then :: "exn + 'a \<Rightarrow> ('a \<Rightarrow> exn + 'b) \<Rightarrow> exn + 'b" where
  "and_then r f = (case r of Inl e \<Rightarrow> Inl e | Inr x \<Rightarrow> f x)"

text \<open>
  What the loop body takes from the details of one succeeded step: the command, if the
  details have one, and the pair of script type and script, if they have both.
\<close>

definition extract_details :: "pyval \<Rightarrow> exn + (pyval list \<times> (pyval \<times> pyval) list)" where
  "extract_details details =
     and_then (py_in ''command'' details) (\<lambda>has_command.
     and_then (if has_command
               then and_then (py_index details ''command'') (\<lambda>c. Inr [c])
               else Inr []) (\<lambda>commands.
     and_then (py_in ''script_type'' details) (\<lambda>has_type.
     and_then (if has_type then py_in ''script'' details else Inr False) (\<lambda>has_both.
       if has_both
       then and_then (py_index details ''script_type'') (\<lambda>ty.
            and_then (py_index details ''script'') (\<lambda>sc. Inr (commands, [(ty, sc)])))
       else Inr (commands, [])))))"

text \<open>
  The loop over the steps: the number of succeeded steps, the commands and the scripts.
  Every stored step has the key \<^verbatim>\<open>result\<close>; where its value is \<^verbatim>\<open>None\<close>,
  \<^verbatim>\<open>'details' in step['result']\<close> raises.
\<close>

fun gather :: "step list \<Rightarrow> exn + (nat \<times> pyval list \<times> (pyval \<times> pyval) list)" where
  "gather [] = Inr (0, [], [])"
| "gather (st # rest) =
     (if s_status st = ''succeeded'' then
        (case s_result st of
           None \<Rightarrow> Inl (TypeError ''argument of type NoneType is not iterable'')
         | Some r \<Rightarrow>
             and_then (extract_details (sr_details r)) (\<lambda>(cs, ss).
             and_then (gather rest) (\<lambda>(n, cs', ss'). Inr (Suc n, cs @ cs', ss @ ss'))))
      else gather rest)"

text \<open>The two knowledge base calls of the learning agent; \<open>Some e\<close> is a raised exception.\<close>

record kb_writer =
  kb_add_task :: "task \<Rightarrow> exn option"
  kb_add_script :: "string \<Rightarrow> pyval \<Rightarrow> pyval \<Rightarrow> exn option"

fun add_scripts :: "kb_writer \<Rightarrow> string \<Rightarrow> (pyval \<times> pyval) list \<Rightarrow> exn option" where
  "add_scripts kb task_id [] = None"
| "add_scripts kb task_id ((ty, sc) # rest) =
     (if truthy sc \<and> truthy ty
      then (case kb_add_script kb task_id sc ty of
              Some e \<Rightarrow> Some e
            | None \<Rightarrow> add_scripts kb task_id rest)
      else add_scripts kb task_id rest)"

text \<open>
  The result is the status of the returned report. The threshold and the ratio are
  floats in the source and reals here.
\<close>

definition learning_learn_from_task ::
  "kb_writer \<Rightarrow> real \<Rightarrow> string \<Rightarrow> task \<Rightarrow> exn + string" where
  "learning_learn_from_task kb learning_threshold task_id task =
     and_then (gather (t_steps task)) (\<lambda>(successful, commands, scripts).
       let success_ratio = real successful / real (max 1 (length (t_steps task)))
       in if success_ratio \<ge> learning_threshold
          then (case kb_add_task kb task of
                  Some e \<Rightarrow> Inl e
                | None \<Rightarrow>
                    (case add_scripts kb task_id scripts of
                       Some e \<Rightarrow> Inl e
                     | None \<Rightarrow> Inr ''success''))
          else Inr ''skipped'')"

text \<open>The call as the worker makes it: the returned report is dropped.\<close>

definition learning_agent :: "kb_writer \<Rightarrow> real \<Rightarrow> string \<Rightarrow> task \<Rightarrow> exn + unit" where
  "learning_agent kb learning_threshold task_id task =
     and_then (learning_learn_from_task kb learning_threshold task_id task) (\<lambda>report. Inr ())"

section \<open>The worker thread\<close>

text \<open>
  \<^verbatim>\<open>_execute_task\<close> runs in a thread of its own, and other threads call
  \<^verbatim>\<open>approve_task\<close> and \<^verbatim>\<open>cancel_task\<close> meanwhile. The worker is therefore a
  transition system: a program counter with the thread's local variables, and one
  transition for each stretch of code between two acquisitions of the lock. The counter
  names the statement about to run. Logging is left out, and so is the branch for
  diagnostic results after a successful step, whose body is \<^verbatim>\<open>pass\<close>.
\<close>

datatype pc =
    GetTask
  | SetPlanning
  | PlanTask
  | AddStep nat
  | SetExecuting
  | LoopHead nat
  | MarkExecuting nat
  | SetWaiting nat
  | Poll nat
  | Dispatch nat
  | RecordSuccess nat StepResult
  | RecordFailure nat string
  | Finalize
  | Learn
  | HandleError string
  | ForceFailed
  | Cleanup
  | Done

text \<open>
  The locals: \<open>w_task\<close> is \<^verbatim>\<open>task\<close> (unassigned before the first statement),
  \<open>w_steps\<close> is \<^verbatim>\<open>task_plan['steps']\<close> (read only once the plan is assigned) and
  \<open>w_success\<close> is \<^verbatim>\<open>success\<close>.
\<close>

record worker =
  w_pc :: pc
  w_task :: "task option"
  w_steps :: "plan_step list"
  w_success :: bool

definition init_worker :: worker where
  "init_worker = \<lparr>w_pc = GetTask, w_task = None, w_steps = [], w_success = True\<rparr>"

definition goto :: "pc \<Rightarrow> worker \<Rightarrow> worker" where
  "goto p w = w\<lparr>w_pc := p\<rparr>"

text \<open>An exception that reaches the outer \<^verbatim>\<open>except Exception\<close> of the worker.\<close>

definition to_handler :: "exn \<Rightarrow> worker \<Rightarrow> worker" where
  "to_handler e w = w\<lparr>w_pc := HandleError (str_exn e)\<rparr>"

text \<open>
  \<^verbatim>\<open>get_task\<close> returns \<^verbatim>\<open>self.tasks[task_id].copy()\<close>, a copy of the outer
  dictionary only: the worker's \<^verbatim>\<open>task\<close> keeps the fields it had when copied, but
  its step list is the stored list itself. What an agent is handed is this view.
\<close>

definition snapshot_view :: "string \<Rightarrow> orchestrator \<Rightarrow> task \<Rightarrow> task" where
  "snapshot_view task_id s snap =
     (case tasks s task_id of None \<Rightarrow> snap | Some t \<Rightarrow> snap\<lparr>t_steps := t_steps t\<rparr>)"

fun worker_op :: "env \<Rightarrow> string \<Rightarrow> pc \<Rightarrow> orchestrator \<Rightarrow> worker \<Rightarrow> orchestrator \<times> worker" where
  "worker_op env task_id GetTask s w =
     (case get_task task_id s of
        Inl e \<Rightarrow> (s, to_handler e w)
      | Inr t \<Rightarrow> (s, w\<lparr>w_task := Some t, w_pc := SetPlanning\<rparr>))"
| "worker_op env task_id SetPlanning s w =
     (case update_task_status task_id (status_value PLANNING) s of
        Inl e \<Rightarrow> (s, to_handler e w)
      | Inr s' \<Rightarrow> (s', goto PlanTask w))"
| "worker_op env task_id PlanTask s w =
     (case w_task w of
        None \<Rightarrow> (s, to_handler (Exception (''local variable '' @ quoted ''task''
                                    @ '' referenced before assignment'')) w)
      | Some t \<Rightarrow>
          (case plan_task env t of
             Inl e \<Rightarrow> (s, to_handler e w)
           | Inr task_plan \<Rightarrow> (s, w\<lparr>w_steps := p_steps task_plan, w_pc := AddStep 0\<rparr>)))"
| "worker_op env task_id (AddStep k) s w =
     (if k < length (w_steps w) then
        (case add_task_step task_id (ps_description (w_steps w ! k)) ''pending'' s of
           Inl e \<Rightarrow> (s, to_handler e w)
         | Inr (step_index, s') \<Rightarrow> (s', goto (AddStep (Suc k)) w))
      else (s, goto SetExecuting w))"
| "worker_op env task_id SetExecuting s w =
     (case update_task_status task_id (status_value EXECUTING) s of
        Inl e \<Rightarrow> (s, to_handler e w)
      | Inr s' \<Rightarrow> (s', goto (LoopHead 0) w))"
| "worker_op env task_id (LoopHead i) s w =
     (if i < length (w_steps w) then
        (case get_task task_id s of
           Inl e \<Rightarrow> (s, to_handler e w)
         | Inr t \<Rightarrow>
             if status_value (t_status t) = status_value CANCELLED
             then (s, goto Cleanup w)
             else (s, goto (MarkExecuting i) w))
      else (s, goto Finalize w))"
| "worker_op env task_id (MarkExecuting i) s w =
     (case update_task_step task_id (int i) (Some ''executing'') None None s of
        Inl e \<Rightarrow> (s, to_handler e w)
      | Inr s' \<Rightarrow>
          if ps_requires_approval (w_steps w ! i)
          then (s', goto (SetWaiting i) w)
          else (s', goto (Dispatch i) w))"
| "worker_op env task_id (SetWaiting i) s w =
     (case update_task_status task_id (status_value WAITING_FOR_APPROVAL) s of
        Inl e \<Rightarrow> (s, to_handler e w)
      | Inr s' \<Rightarrow> (s', goto (Poll i) w))"
| "worker_op env task_id (Poll i) s w =
     (case get_task task_id s of
        Inl e \<Rightarrow> (s, to_handler e w)
      | Inr t \<Rightarrow>
          if status_value (t_status t) = status_value EXECUTING
          then (s, goto (Dispatch i) w)
          else if status_value (t_status t) = status_value CANCELLED
          then (s, goto Cleanup w)
          else (s, goto (Poll i) w))"
| "worker_op env task_id (Dispatch i) s w =
     (let stp = w_steps w ! i; agent_type = ps_agent_type stp
      in case agents env agent_type of
           None \<Rightarrow> (s, goto (RecordFailure i (str_exn (KeyError agent_type))) w)
         | Some agent \<Rightarrow>
             (case w_task w of
                None \<Rightarrow>
                  (s, goto (RecordFailure i
                              (''local variable '' @ quoted ''task''
                               @ '' referenced before assignment'')) w)
              | Some t \<Rightarrow>
                  (case agent (snapshot_view task_id s t) stp i of
                     Inl e \<Rightarrow> (s, goto (RecordFailure i (str_exn e)) w)
                   | Inr step_result \<Rightarrow> (s, goto (RecordSuccess i step_result) w))))"
| "worker_op env task_id (RecordSuccess i step_result) s w =
     (case update_task_step task_id (int i) (Some ''succeeded'') (Some step_result) None s of
        Inl e \<Rightarrow> (s, goto (RecordFailure i (str_exn e)) w)
      | Inr s' \<Rightarrow> (s', goto (LoopHead (Suc i)) w))"
| "worker_op env task_id (RecordFailure i msg) s w =
     (case update_task_step task_id (int i) (Some ''failed'') None (Some msg) s of
        Inl e \<Rightarrow> (s, to_handler e w)
      | Inr s' \<Rightarrow>
          if ps_critical (w_steps w ! i)
          then (s', w\<lparr>w_success := False, w_pc := Finalize\<rparr>)
          else (s', w\<lparr>w_success := False, w_pc := LoopHead (Suc i)\<rparr>))"
| "worker_op env task_id Finalize s w =
     (let final_status = (if w_success w then status_value SUCCEEDED else status_value FAILED)
      in case update_task_status task_id final_status s of
           Inl e \<Rightarrow> (s, to_handler e w)
         | Inr s' \<Rightarrow> if w_success w then (s', goto Learn w) else (s', goto Cleanup w))"
| "worker_op env task_id Learn s w =
     (case get_task task_id s of
        Inl e \<Rightarrow> (s, to_handler e w)
      | Inr t \<Rightarrow>
          (case learn_from_task env task_id t of
             Inl e \<Rightarrow> (s, to_handler e w)
           | Inr u \<Rightarrow> (s, goto Cleanup w)))"
| "worker_op env task_id (HandleError msg) s w =
     (case add_task_error task_id msg s of
        Inl e \<Rightarrow> (s, goto Cleanup w)
      | Inr s' \<Rightarrow> (s', goto ForceFailed w))"
| "worker_op env task_id ForceFailed s w =
     (case update_task_status task_id (status_value FAILED) s of
        Inl e \<Rightarrow> (s, goto Cleanup w)
      | Inr s' \<Rightarrow> (s', goto Cleanup w))"
| "worker_op env task_id Cleanup s w =
     (s\<lparr>active_tasks := active_tasks s - {task_id}\<rparr>, goto Done w)"
| "worker_op env task_id Done s w = (s, w)"

definition worker_step :: "env \<Rightarrow> string \<Rightarrow> orchestrator \<times> worker \<Rightarrow> orchestrator \<times> worker" where
  "worker_step env task_id sys = worker_op env task_id (w_pc (snd sys)) (fst sys) (snd sys)"

section \<open>Interleaving with the callers of the public interface\<close>

text \<open>
  What can happen to the store while the worker of one task runs: the worker takes its
  next transition, some caller approves or cancels a task, or time passes. A call that
  raises hands its exception to the caller and leaves the store as it was.
\<close>

datatype event = Worker | Approve string | Cancel string | Tick

definition after :: "(orchestrator \<Rightarrow> exn + orchestrator) \<Rightarrow> orchestrator \<Rightarrow> orchestrator" where
  "after call s = (case call s of Inl e \<Rightarrow> s | Inr s' \<Rightarrow> s')"

fun fire :: "env \<Rightarrow> string \<Rightarrow> event \<Rightarrow> orchestrator \<times> worker \<Rightarrow> orchestrator \<times> worker" where
  "fire env task_id Worker sys = worker_step env task_id sys"
| "fire env task_id (Approve i) sys = (after (approve_task i) (fst sys), snd sys)"
| "fire env task_id (Cancel i) sys = (after (cancel_task i) (fst sys), snd sys)"
| "fire env task_id Tick sys = ((fst sys)\<lparr>clock := Suc (clock (fst sys))\<rparr>, snd sys)"

fun run :: "env \<Rightarrow> string \<Rightarrow> event list \<Rightarrow> orchestrator \<times> worker \<Rightarrow> orchestrator \<times> worker" where
  "run env task_id [] sys = sys"
| "run env task_id (e # es) sys = run env task_id es (fire env task_id e sys)"

text \<open>
  The system right after \<^verbatim>\<open>create_task\<close> returned the identifier: the task is stored
  as created and its worker is about to run its first statement.
\<close>

definition start :: "string \<Rightarrow> string \<Rightarrow> string \<Rightarrow> params \<Rightarrow> string \<Rightarrow> orchestrator \<Rightarrow>
  orchestrator \<times> worker" where
  "start task_id task_type description parameters priority s =
     (create_task task_id task_type description parameters priority s, init_worker)"

text \<open>
  The schedule in which an approver answers every approval gate as soon as the task shows
  \<^verbatim>\<open>waiting_for_approval\<close>, and nothing else interferes with the worker.
\<close>

definition attend :: "env \<Rightarrow> string \<Rightarrow> orchestrator \<times> worker \<Rightarrow> orchestrator \<times> worker" where
  "attend env task_id sys =
     (if status_of task_id (fst sys) = Some WAITING_FOR_APPROVAL
      then fire env task_id (Approve task_id) sys
      else fire env task_id Worker sys)"

fun drive :: "env \<Rightarrow> string \<Rightarrow> nat \<Rightarrow> orchestrator \<times> worker \<Rightarrow> orchestrator \<times> worker" where
  "drive env task_id 0 sys = sys"
| "drive env task_id (Suc n) sys = drive env task_id n (attend env task_id sys)"

section \<open>Reference model of the task dictionary\<close>

text \<open>
  The records above give every task as a value. What \<^verbatim>\<open>get_task\<close> hands out, however,
  depends on which Python objects are shared, so the store is modelled a second time with
  explicit references: an object is a dictionary or a list whose entries are atoms or
  references to other objects, and \<^verbatim>\<open>self.tasks\<close> maps an identifier to the reference of
  the task's dictionary. Timestamps are strings supplied by the caller of the model.
\<close>

datatype val = VNone | VStr string | VRef nat

datatype obj = Dict "(string \<times> val) list" | List "val list"

record pystore =
  objects :: "obj list"
  task_refs :: "(string \<times> nat) list"

text \<open>Python's \<^verbatim>\<open>d[k] = v\<close> on the entries of a dictionary.\<close>

fun assign :: "'k \<Rightarrow> 'v \<Rightarrow> ('k \<times> 'v) list \<Rightarrow> ('k \<times> 'v) list" where
  "assign k v [] = [(k, v)]"
| "assign k v ((k', v') # kvs) =
     (if k' = k then (k, v) # kvs else (k', v') # assign k v kvs)"

definition deref :: "obj list \<Rightarrow> nat \<Rightarrow> obj option" where
  "deref h r = (if r < length h then Some (h ! r) else None)"

text \<open>\<^verbatim>\<open>create_task\<close>: a fresh list for the steps and a fresh dictionary for the task.\<close>

definition ref_create_task ::
  "string \<Rightarrow> string \<Rightarrow> string \<Rightarrow> val \<Rightarrow> string \<Rightarrow> string \<Rightarrow> pystore \<Rightarrow> pystore" where
  "ref_create_task task_id task_type description parameters priority now st =
     (let l = length (objects st); d = Suc l
      in st\<lparr>objects := objects st @
              [List [],
               Dict [(''id'', VStr task_id), (''type'', VStr task_type),
                     (''description'', VStr description), (''parameters'', parameters),
                     (''priority'', VStr priority), (''status'', VStr ''pending''),
                     (''created_at'', VStr now), (''updated_at'', VStr now),
                     (''steps'', VRef l), (''result'', VNone), (''error'', VNone)]],
            task_refs := assign task_id d (task_refs st)\<rparr>)"

text \<open>
  \<^verbatim>\<open>add_task_step\<close>: a fresh step dictionary, appended to the list that the task's
  \<^verbatim>\<open>steps\<close> entry refers to. \<open>None\<close> is the KeyError for an unknown task.
\<close>

definition ref_add_task_step ::
  "string \<Rightarrow> string \<Rightarrow> string \<Rightarrow> string \<Rightarrow> pystore \<Rightarrow> pystore option" where
  "ref_add_task_step task_id step_description step_status now st =
     (case map_of (task_refs st) task_id of
        None \<Rightarrow> None
      | Some d \<Rightarrow>
          (case deref (objects st) d of
             Some (Dict kvs) \<Rightarrow>
               (case map_of kvs ''steps'' of
                  Some (VRef l) \<Rightarrow>
                    (case deref (objects st) l of
                       Some (List xs) \<Rightarrow>
                         (let n = length (objects st);
                              new = Dict [(''description'', VStr step_description),
                                          (''status'', VStr step_status),
                                          (''created_at'', VStr now),
                                          (''updated_at'', VStr now),
                                          (''result'', VNone), (''error'', VNone)]
                          in Some (st\<lparr>objects :=
                                ((objects st @ [new])[l := List (xs @ [VRef n])])
                                  [d := Dict (assign ''updated_at'' (VStr now) kvs)]\<rparr>))
                     | _ \<Rightarrow> None)
                | _ \<Rightarrow> None)
           | _ \<Rightarrow> None))"

text \<open>
  \<^verbatim>\<open>get_task\<close> returns \<^verbatim>\<open>self.tasks[task_id].copy()\<close>: a new dictionary with the
  same entries, references included. The result is the reference of the copy.
\<close>

definition ref_get_task :: "string \<Rightarrow> pystore \<Rightarrow> (nat \<times> pystore) option" where
  "ref_get_task task_id st =
     (case map_of (task_refs st) task_id of
        None \<Rightarrow> None
      | Some d \<Rightarrow>
          (case deref (objects st) d of
             Some (Dict kvs) \<Rightarrow>
               Some (length (objects st), st\<lparr>objects := objects st @ [Dict kvs]\<rparr>)
           | _ \<Rightarrow> None))"

text \<open>\<^verbatim>\<open>get_all_tasks\<close>: one such copy for every task that passes the filter.\<close>

fun copy_tasks :: "string option \<Rightarrow> (string \<times> nat) list \<Rightarrow> pystore \<Rightarrow> nat list \<times> pystore" where
  "copy_tasks status_filter [] st = ([], st)"
| "copy_tasks status_filter ((task_id, d) # rest) st =
     (case deref (objects st) d of
        Some (Dict kvs) \<Rightarrow>
          if (case status_filter of
                None \<Rightarrow> True
              | Some f \<Rightarrow> f = [] \<or> map_of kvs ''status'' = Some (VStr f))
          then (let r = length (objects st);
                    (rs, st') = copy_tasks status_filter rest
                                  (st\<lparr>objects := objects st @ [Dict kvs]\<rparr>)
                in (r # rs, st'))
          else copy_tasks status_filter rest st
      | _ \<Rightarrow> copy_tasks status_filter rest st)"

definition ref_get_all_tasks :: "string option \<Rightarrow> pystore \<Rightarrow> nat list \<times> pystore" where
  "ref_get_all_tasks status_filter st = copy_tasks status_filter (task_refs st) st"

text \<open>
  What a caller can do with a reference it was given: read \<^verbatim>\<open>d[k]\<close> and \<^verbatim>\<open>l[i]\<close>,
  write \<^verbatim>\<open>d[k] = v\<close>; and the caller's statement
  \<^verbatim>\<open>task['steps'][i]['status'] = v\<close> on a returned task.
\<close>

definition item :: "obj list \<Rightarrow> nat \<Rightarrow> string \<Rightarrow> val option" where
  "item h r k = (case deref h r of Some (Dict kvs) \<Rightarrow> map_of kvs k | _ \<Rightarrow> None)"

definition element :: "obj list \<Rightarrow> nat \<Rightarrow> nat \<Rightarrow> val option" where
  "element h r i =
     (case deref h r of
        Some (List xs) \<Rightarrow> if i < length xs then Some (xs ! i) else None
      | _ \<Rightarrow> None)"

definition set_item :: "nat \<Rightarrow> string \<Rightarrow> val \<Rightarrow> obj list \<Rightarrow> obj list" where
  "set_item r k v h =
     (case deref h r of Some (Dict kvs) \<Rightarrow> h[r := Dict (assign k v kvs)] | _ \<Rightarrow> h)"

definition set_step_status :: "nat \<Rightarrow> nat \<Rightarrow> string \<Rightarrow> pystore \<Rightarrow> pystore" where
  "set_step_status r i v st =
     (case item (objects st) r ''steps'' of
        Some (VRef l) \<Rightarrow>
          (case element (objects st) l i of
             Some (VRef e) \<Rightarrow> st\<lparr>objects := set_item e ''status'' (VStr v) (objects st)\<rparr>
           | _ \<Rightarrow> st)
      | _ \<Rightarrow> st)"

text \<open>The status of step \<open>i\<close> of the task that the store holds under an identifier.\<close>

definition stored_step_status :: "pystore \<Rightarrow> string \<Rightarrow> nat \<Rightarrow> val option" where
  "stored_step_status st task_id i =
     (case map_of (task_refs st) task_id of
        None \<Rightarrow> None
      | Some d \<Rightarrow>
          (case item (objects st) d ''steps'' of
             Some (VRef l) \<Rightarrow>
               (case element (objects st) l i of
                  Some (VRef e) \<Rightarrow> item (objects st) e ''status''
                | _ \<Rightarrow> None)
           | _ \<Rightarrow> None))"

definition stored_status :: "pystore \<Rightarrow> string \<Rightarrow> val option" where
  "stored_status st task_id =
     (case map_of (task_refs st) task_id of
        None \<Rightarrow> None
      | Some d \<Rightarrow> item (objects st) d ''status'')"

text \<open>A store holding one task with one pending step, built by the two operations.\<close>

definition one_step_store :: "pystore option" where
  "one_step_store =
     ref_add_task_step ''t1'' ''Execute demo operation'' ''pending'' ''2024-01-01T00:00:01''
       (ref_create_task ''t1'' ''demo'' ''x'' VNone ''low'' ''2024-01-01T00:00:00''
          \<lparr>objects = [], task_refs = []\<rparr>)"

section \<open>Vocabulary of the properties\<close>

definition terminal :: "TaskStatus \<Rightarrow> bool" where
  "terminal st \<longleftrightarrow> st = SUCCEEDED \<or> st = FAILED \<or> st = CANCELLED"


text \<open>A step as \<^verbatim>\<open>add_task_step\<close> left it, and a step marked executing and not yet recorded.\<close>

definition untouched :: "step \<Rightarrow> bool" where
  "untouched st \<longleftrightarrow> s_status st = ''pending'' \<and> s_result st = None \<and> s_error st = None"

definition in_flight :: "step \<Rightarrow> bool" where
  "in_flight st \<longleftrightarrow> s_status st = ''executing'' \<and> s_result st = None \<and> s_error st = None"

text \<open>A step the loop has gone past: it succeeded, or it failed and was not critical.\<close>

definition settled :: "plan_step \<Rightarrow> step \<Rightarrow> bool" where
  "settled ps st \<longleftrightarrow>
     s_status st = ''succeeded'' \<or> (s_status st = ''failed'' \<and> \<not> ps_critical ps)"

text \<open>
  The step ledger when the loop stands at index \<open>i\<close>: everything before is settled,
  everything after is untouched.
\<close>

definition ledger :: "plan_step list \<Rightarrow> step list \<Rightarrow> nat \<Rightarrow> bool" where
  "ledger pl stps i \<longleftrightarrow>
     (\<forall>j. j < i \<and> j < length stps \<longrightarrow> settled (pl ! j) (stps ! j)) \<and>
     (\<forall>j. i < j \<and> j < length stps \<longrightarrow> untouched (stps ! j))"

text \<open>The statuses a task can have while its worker stands at a given statement.\<close>

fun pc_statuses :: "pc \<Rightarrow> TaskStatus set" where
  "pc_statuses GetTask = {PENDING, CANCELLED}"
| "pc_statuses SetPlanning = {PENDING, CANCELLED}"
| "pc_statuses PlanTask = {PLANNING, CANCELLED}"
| "pc_statuses (AddStep k) = {PLANNING, CANCELLED}"
| "pc_statuses SetExecuting = {PLANNING, CANCELLED}"
| "pc_statuses (Poll i) = {WAITING_FOR_APPROVAL, EXECUTING, CANCELLED}"
| "pc_statuses Learn = {SUCCEEDED, CANCELLED}"
| "pc_statuses (HandleError m) = UNIV"
| "pc_statuses ForceFailed = UNIV"
| "pc_statuses Cleanup = {SUCCEEDED, FAILED, CANCELLED}"
| "pc_statuses Done = {SUCCEEDED, FAILED, CANCELLED}"
| "pc_statuses p = {EXECUTING, CANCELLED}"

fun pc_success :: "pc \<Rightarrow> bool \<Rightarrow> TaskStatus \<Rightarrow> bool" where
  "pc_success Learn success st \<longleftrightarrow> success"
| "pc_success Cleanup success st \<longleftrightarrow> (\<not> success \<longrightarrow> st \<noteq> SUCCEEDED)"
| "pc_success Done success st \<longleftrightarrow> (\<not> success \<longrightarrow> st \<noteq> SUCCEEDED)"
| "pc_success p success st \<longleftrightarrow> True"

definition inv_status :: "string \<Rightarrow> orchestrator \<times> worker \<Rightarrow> bool" where
  "inv_status task_id sys \<longleftrightarrow>
     (case tasks (fst sys) task_id of
        None \<Rightarrow> False
      | Some t \<Rightarrow>
          t_result t = None \<and> t_status t \<in> pc_statuses (w_pc (snd sys)) \<and>
          pc_success (w_pc (snd sys)) (w_success (snd sys)) (t_status t))"

fun pc_ledger :: "pc \<Rightarrow> plan_step list \<Rightarrow> step list \<Rightarrow> bool" where
  "pc_ledger GetTask pl stps \<longleftrightarrow> stps = []"
| "pc_ledger SetPlanning pl stps \<longleftrightarrow> stps = []"
| "pc_ledger PlanTask pl stps \<longleftrightarrow> stps = []"
| "pc_ledger (AddStep k) pl stps \<longleftrightarrow>
     length stps = k \<and> k \<le> length pl \<and> (\<forall>j < length stps. untouched (stps ! j))"
| "pc_ledger SetExecuting pl stps \<longleftrightarrow>
     length stps = length pl \<and> (\<forall>j < length stps. untouched (stps ! j))"
| "pc_ledger (LoopHead i) pl stps \<longleftrightarrow>
     length stps = length pl \<and> i \<le> length pl \<and> ledger pl stps i \<and>
     (i < length pl \<longrightarrow> untouched (stps ! i))"
| "pc_ledger (MarkExecuting i) pl stps \<longleftrightarrow>
     length stps = length pl \<and> i < length pl \<and> ledger pl stps i \<and> untouched (stps ! i)"
| "pc_ledger (SetWaiting i) pl stps \<longleftrightarrow>
     length stps = length pl \<and> i < length pl \<and> ledger pl stps i \<and> in_flight (stps ! i)"
| "pc_ledger (Poll i) pl stps \<longleftrightarrow>
     length stps = length pl \<and> i < length pl \<and> ledger pl stps i \<and> in_flight (stps ! i)"
| "pc_ledger (Dispatch i) pl stps \<longleftrightarrow>
     length stps = length pl \<and> i < length pl \<and> ledger pl stps i \<and> in_flight (stps ! i)"
| "pc_ledger (RecordSuccess i r) pl stps \<longleftrightarrow>
     length stps = length pl \<and> i < length pl \<and> ledger pl stps i \<and> in_flight (stps ! i)"
| "pc_ledger (RecordFailure i m) pl stps \<longleftrightarrow>
     length stps = length pl \<and> i < length pl \<and> ledger pl stps i \<and> in_flight (stps ! i)"
| "pc_ledger p pl stps \<longleftrightarrow> (\<exists>i. ledger pl stps i)"

definition inv_ledger :: "string \<Rightarrow> orchestrator \<times> worker \<Rightarrow> bool" where
  "inv_ledger task_id sys \<longleftrightarrow>
     (case tasks (fst sys) task_id of
        None \<Rightarrow> False
      | Some t \<Rightarrow>
          pc_ledger (w_pc (snd sys)) (w_steps (snd sys)) (t_steps t) \<and>
          ((\<exists>j < length (t_steps t). s_status (t_steps t ! j) = ''failed'')
             \<longrightarrow> \<not> w_success (snd sys)))"

definition inv :: "string \<Rightarrow> orchestrator \<times> worker \<Rightarrow> bool" where
  "inv task_id sys \<longleftrightarrow> inv_status task_id sys \<and> inv_ledger task_id sys"


text \<open>
  A bound on the transitions the worker still has to take, for a plan of \<open>n\<close> steps;
  \<open>planned\<close> holds once the plan is in the worker's hands.
\<close>

fun rank :: "nat \<Rightarrow> pc \<Rightarrow> nat" where
  "rank n Done = 0"
| "rank n Cleanup = 1"
| "rank n ForceFailed = 2"
| "rank n (HandleError m) = 3"
| "rank n Learn = 4"
| "rank n Finalize = 5"
| "rank n (LoopHead i) = 6 + 6 * (n - i)"
| "rank n (MarkExecuting i) = 5 + 6 * (n - i)"
| "rank n (SetWaiting i) = 4 + 6 * (n - i)"
| "rank n (Poll i) = 3 + 6 * (n - i)"
| "rank n (Dispatch i) = 2 + 6 * (n - i)"
| "rank n (RecordSuccess i r) = 1 + 6 * (n - i)"
| "rank n (RecordFailure i m) = 1 + 6 * (n - i)"
| "rank n SetExecuting = 7 + 6 * n"
| "rank n (AddStep k) = 8 + 6 * n + (n - k)"
| "rank n PlanTask = 0"
| "rank n SetPlanning = 0"
| "rank n GetTask = 0"

definition planned :: "pc \<Rightarrow> bool" where
  "planned p \<longleftrightarrow> p \<noteq> GetTask \<and> p \<noteq> SetPlanning \<and> p \<noteq> PlanTask"

definition sys_rank :: "string \<Rightarrow> orchestrator \<times> worker \<Rightarrow> nat" where
  "sys_rank task_id sys =
     2 * rank (length (w_steps (snd sys))) (w_pc (snd sys))
     + (if status_of task_id (fst sys) = Some WAITING_FOR_APPROVAL then 1 else 0)"

text \<open>
  The similarity score in the words of the specification: 0.6 times the share of shared
  keys among all keys, plus 0.4 times the share of shared keys with equal values.
\<close>

definition spec_similarity :: "params \<Rightarrow> params \<Rightarrow> real" where
  "spec_similarity params1 params2 =
     (let shared = set (map fst params1) \<inter> set (map fst params2);
          union = set (map fst params1) \<union> set (map fst params2)
      in 0.6 * (real (card shared) / real (card union))
         + 0.4 * (real (card {key \<in> shared. map_of params1 key = map_of params2 key})
                  / real (card shared)))"

text \<open>
  The ledger is the plan: stored steps carry the plan's descriptions in the plan's order,
  all of them once the appending loop is over.
\<close>

definition inv_plan :: "string \<Rightarrow> orchestrator \<times> worker \<Rightarrow> bool" where
  "inv_plan task_id sys \<longleftrightarrow>
     (case tasks (fst sys) task_id of
        None \<Rightarrow> False
      | Some t \<Rightarrow>
          (case w_pc (snd sys) of
             GetTask \<Rightarrow> t_steps t = [] \<and> w_steps (snd sys) = []
           | SetPlanning \<Rightarrow> t_steps t = [] \<and> w_steps (snd sys) = []
           | PlanTask \<Rightarrow> t_steps t = [] \<and> w_steps (snd sys) = []
           | AddStep k \<Rightarrow>
               map s_description (t_steps t) = take k (map ps_description (w_steps (snd sys)))
           | _ \<Rightarrow>
               map s_description (t_steps t) = map ps_description (w_steps (snd sys))))"

section \<open>Concrete stores, plans and collaborators\<close>

text \<open>Inputs on which the theorems below are exercised.\<close>

definition empty_store :: orchestrator where
  "empty_store = \<lparr>tasks = Map.empty, active_tasks = {}, clock = 0\<rparr>"

definition ok_result :: StepResult where
  "ok_result = \<lparr>sr_status = ''success'', sr_message = ''Command executed successfully'',
     sr_details = PDict []\<rparr>"

definition backends0 :: backends where
  "backends0 = \<lparr>execute_local_command = (\<lambda>ps. Inr ok_result),
     execute_remote_command = (\<lambda>ps. Inr ok_result),
     execute_local_script = (\<lambda>ps. Inr ok_result),
     execute_remote_script = (\<lambda>ps. Inr ok_result),
     execute_ansible_playbook = (\<lambda>ps. Inr ok_result)\<rparr>"

text \<open>A planner whose chain returns a plan with a critical step for an unregistered agent.\<close>

definition network_plan :: plan where
  "network_plan = \<lparr>p_task_id = ''t1'', p_summary = ''Check the network'',
     p_steps = [\<lparr>ps_description = ''Probe the switch'', ps_agent_type = ''network'',
                 ps_requires_approval = False, ps_critical = True, ps_parameters = []\<rparr>,
                \<lparr>ps_description = ''Verify the result'', ps_agent_type = ''validation'',
                 ps_requires_approval = False, ps_critical = False, ps_parameters = []\<rparr>]\<rparr>"

definition env_network :: env where
  "env_network = \<lparr>agents = registry backends0,
     search_similar_tasks = (\<lambda>q. Inr []),
     kb_get_task = (\<lambda>i. Inr None),
     reuse_similar_plans = True,
     planning_chain = (\<lambda>t. Inr network_plan),
     default_checks = [],
     learn_from_task = (\<lambda>i t. Inr ())\<rparr>"

text \<open>A store with one task waiting for approval and one executing.\<close>

definition two_tasks :: orchestrator where
  "two_tasks = \<lparr>tasks =
       [''a'' \<mapsto> (new_task ''a'' ''demo'' ''x'' [] ''low'' 0)\<lparr>t_status := WAITING_FOR_APPROVAL\<rparr>,
        ''b'' \<mapsto> (new_task ''b'' ''demo'' ''y'' [] ''low'' 0)\<lparr>t_status := EXECUTING\<rparr>],
     active_tasks = {''a'', ''b''}, clock = 1\<rparr>"

text \<open>Two parameter mappings with the same keys that agree on one value of two.\<close>

definition params_a :: params where
  "params_a = [(''host'', PStr ''db1''), (''port'', PInt 5432)]"

definition params_b :: params where
  "params_b = [(''host'', PStr ''db1''), (''port'', PInt 5433)]"

definition prior_task :: kb_task where
  "prior_task = \<lparr>k_id = ''old'', k_type = ''demo'', k_status = ''succeeded'',
     k_parameters = params_b, k_steps = []\<rparr>"

text \<open>
  A collaborator set whose planner chain always raises and whose knowledge base knows one
  prior task. Its learning agent is a stand-in that returns, as when the agent is
  replaced by a mock; the second set has a stand-in that raises.
\<close>

definition env_fallback :: env where
  "env_fallback = \<lparr>agents = registry backends0,
     search_similar_tasks = (\<lambda>q. Inr [prior_task]),
     kb_get_task = (\<lambda>i. Inr None),
     reuse_similar_plans = True,
     planning_chain = (\<lambda>t. Inl (Exception ''model unavailable'')),
     default_checks = [],
     learn_from_task = (\<lambda>i t. Inr ())\<rparr>"

definition env_learning_fails :: env where
  "env_learning_fails =
     env_fallback\<lparr>learn_from_task := (\<lambda>i t. Inl (Exception ''knowledge base unavailable''))\<rparr>"

text \<open>
  The same collaborators with the learning agent of the source in place of the stand-in,
  over a knowledge base that accepts what it is given.
\<close>

definition kb_accepting :: kb_writer where
  "kb_accepting = \<lparr>kb_add_task = (\<lambda>t. None), kb_add_script = (\<lambda>i sc ty. None)\<rparr>"

definition env_fallback_learning :: env where
  "env_fallback_learning = env_fallback\<lparr>learn_from_task := learning_agent kb_accepting 0.8\<rparr>"



text \<open>
  A planner that returns a critical command step followed by a validation step, and a
  process backend on which the command exits with return code 1: the result dictionary
  that \<^verbatim>\<open>_execute_local_command\<close> returns then has the status \<^verbatim>\<open>error\<close> (its
  floating-point execution time is left out of the details).
\<close>

definition failed_command_result :: StepResult where
  "failed_command_result =
     \<lparr>sr_status = ''error'', sr_message = ''Command failed with return code 1'',
      sr_details = PDict [(''stdout'', PStr []), (''stderr'', PStr []),
                          (''return_code'', PInt 1)]\<rparr>"

definition backends_failing :: backends where
  "backends_failing = backends0\<lparr>execute_local_command := (\<lambda>ps. Inr failed_command_result)\<rparr>"

definition command_plan :: plan where
  "command_plan = \<lparr>p_task_id = ''t1'', p_summary = ''Run and verify'',
     p_steps = [\<lparr>ps_description = ''Run the command'', ps_agent_type = ''execution'',
                 ps_requires_approval = False, ps_critical = True,
                 ps_parameters = [(''command'', PStr ''false'')]\<rparr>,
                \<lparr>ps_description = ''Verify the result'', ps_agent_type = ''validation'',
                 ps_requires_approval = False, ps_critical = False, ps_parameters = []\<rparr>]\<rparr>"

definition env_command_fails :: env where
  "env_command_fails = \<lparr>agents = registry backends_failing,
     search_similar_tasks = (\<lambda>q. Inr []),
     kb_get_task = (\<lambda>i. Inr None),
     reuse_similar_plans = True,
     planning_chain = (\<lambda>t. Inr command_plan),
     default_checks = [],
     learn_from_task = learning_agent kb_accepting 0.8\<rparr>"

text \<open>
  The schedule of a task under the fallback plan: the worker runs up to the approval gate
  of the first step, the approver approves, the worker runs to its end.
\<close>

definition approved_run :: "event list" where
  "approved_run = replicate 10 Worker @ [Approve ''t1''] @ replicate 11 Worker"

text \<open>The same schedule cut off where the worker is about to call the learning agent.\<close>

definition at_learn :: "event list" where
  "at_learn = replicate 10 Worker @ [Approve ''t1''] @ replicate 9 Worker"

text \<open>
  A task cancelled while its worker polls at the approval gate of step \<open>i\<close>: the status
  is \<^verbatim>\<open>cancelled\<close>, the ledger is \<open>stps\<close>, and the worker is still polling or on its
  way out. \<open>halt_rank\<close> counts the transitions the worker then has left.
\<close>

definition cancelled_wait :: "string \<Rightarrow> nat \<Rightarrow> step list \<Rightarrow> orchestrator \<times> worker \<Rightarrow> bool" where
  "cancelled_wait task_id i stps sys \<longleftrightarrow>
     (case tasks (fst sys) task_id of
        None \<Rightarrow> False
      | Some t \<Rightarrow> t_status t = CANCELLED \<and> t_steps t = stps \<and> t_result t = None) \<and>
     (w_pc (snd sys) = Poll i \<or> w_pc (snd sys) = Cleanup \<or> w_pc (snd sys) = Done)"

fun halt_rank :: "pc \<Rightarrow> nat" where
  "halt_rank (Poll i) = 2"
| "halt_rank Cleanup = 1"
| "halt_rank p = 0"

section \<open>Basic facts\<close>

lemma TaskStatus_of_value [simp]: "TaskStatus_of (status_value st) = Some st"
  by (cases st) (simp_all add: TaskStatus_of_def)

lemma status_value_inj [simp]: "status_value a = status_value b \<longleftrightarrow> a = b"
  by (cases a; cases b) simp_all

declare status_value.simps [simp del]

lemma get_task_Some [simp]: "tasks s i = Some t \<Longrightarrow> get_task i s = Inr t"
  by (simp add: get_task_def)

lemma update_task_status_Some [simp]:
  "tasks s i = Some t \<Longrightarrow>
   update_task_status i (status_value st) s =
     Inr (s\<lparr>tasks := (tasks s)(i \<mapsto> t\<lparr>t_status := st, t_updated_at := clock s\<rparr>)\<rparr>)"
  by (simp add: update_task_status_def)

lemma add_task_error_Some [simp]:
  "tasks s i = Some t \<Longrightarrow>
   add_task_error i m s =
     Inr (s\<lparr>tasks := (tasks s)(i \<mapsto> t\<lparr>t_error := Some m, t_updated_at := clock s\<rparr>)\<rparr>)"
  by (simp add: add_task_error_def)

lemma add_task_step_Some [simp]:
  "tasks s i = Some t \<Longrightarrow>
   add_task_step i d st s =
     Inr (length (t_steps t),
          s\<lparr>tasks := (tasks s)(i \<mapsto>
               t\<lparr>t_steps := t_steps t @ [new_step d st (clock s)], t_updated_at := clock s\<rparr>)\<rparr>)"
  by (simp add: add_task_step_def)

lemma update_task_step_Some [simp]:
  "tasks s i = Some t \<Longrightarrow> k < length (t_steps t) \<Longrightarrow>
   update_task_step i (int k) st r e s =
     Inr (s\<lparr>tasks := (tasks s)(i \<mapsto>
               t\<lparr>t_steps := (t_steps t)[k := update_step st r e (clock s) (t_steps t ! k)],
                 t_updated_at := clock s\<rparr>)\<rparr>)"
  by (simp add: update_task_step_def)

section \<open>Approval\<close>

text \<open>
  Claim C8. \<^verbatim>\<open>approve_task\<close> fails with the not-found KeyError for an unknown task
  identifier; for a task whose status is \<^verbatim>\<open>waiting_for_approval\<close> it returns and the
  status is \<^verbatim>\<open>executing\<close>; for a task in any other status it fails with a ValueError
  (the invalid-state failure) and the status after the call is what it was before.
\<close>

theorem approve_task_contract:
  "(tasks s task_id = None \<longrightarrow> approve_task task_id s = Inl (not_found task_id)) \<and>
   (\<forall>t. tasks s task_id = Some t \<and> t_status t = WAITING_FOR_APPROVAL \<longrightarrow>
      (\<exists>s'. approve_task task_id s = Inr s' \<and> status_of task_id s' = Some EXECUTING)) \<and>
   (\<forall>t. tasks s task_id = Some t \<and> t_status t \<noteq> WAITING_FOR_APPROVAL \<longrightarrow>
      (\<exists>m. approve_task task_id s = Inl (ValueError m)) \<and>
      status_of task_id (after (approve_task task_id) s) = Some (t_status t))"
  by (auto simp: approve_task_def status_of_def after_def)

theorem approve_task_contract_witness:
  "tasks two_tasks ''c'' = None \<and>
   approve_task ''c'' two_tasks = Inl (not_found ''c'') \<and>
   map_option t_status (tasks two_tasks ''a'') = Some WAITING_FOR_APPROVAL \<and>
   (\<exists>s'. approve_task ''a'' two_tasks = Inr s' \<and> status_of ''a'' s' = Some EXECUTING) \<and>
   map_option t_status (tasks two_tasks ''b'') = Some EXECUTING \<and>
   (\<exists>m. approve_task ''b'' two_tasks = Inl (ValueError m)) \<and>
   status_of ''b'' (after (approve_task ''b'') two_tasks) = Some EXECUTING"
  using approve_task_contract [of two_tasks "''a''"]
    approve_task_contract [of two_tasks "''b''"]
    approve_task_contract [of two_tasks "''c''"]
  by (simp add: two_tasks_def new_task_def)

section \<open>Invariants of the worker under every interleaving\<close>

lemma update_task_step_frame:
  "update_task_step i k a b c s = Inr s' \<Longrightarrow> tasks s i = Some t \<Longrightarrow>
   \<exists>t'. tasks s' i = Some t' \<and> t_status t' = t_status t \<and> t_result t' = t_result t \<and>
        t_error t' = t_error t \<and> active_tasks s' = active_tasks s"
  by (auto simp: update_task_step_def split: if_splits)

lemma inv_status_worker:
  assumes "inv_status tid sys"
  shows "inv_status tid (worker_step env tid sys)"
proof -
  obtain s w where sys: "sys = (s, w)" by (cases sys)
  from assms sys obtain t where t: "tasks s tid = Some t"
    by (auto simp: inv_status_def split: option.splits)
  show ?thesis
  proof (cases "w_pc w")
    case (MarkExecuting i)
    then show ?thesis using assms sys t
      by (auto simp: inv_status_def worker_step_def goto_def to_handler_def
          split: sum.splits dest!: update_task_step_frame)
  next
    case (RecordSuccess i r)
    then show ?thesis using assms sys t
      by (auto simp: inv_status_def worker_step_def goto_def to_handler_def
          split: sum.splits dest!: update_task_step_frame)
  next
    case (RecordFailure i m)
    then show ?thesis using assms sys t
      by (auto simp: inv_status_def worker_step_def goto_def to_handler_def
          split: sum.splits dest!: update_task_step_frame)
  qed (use assms sys t in \<open>auto simp: inv_status_def worker_step_def goto_def to_handler_def Let_def
          split: sum.splits option.splits\<close>)
qed

lemma inv_status_fire:
  assumes "inv_status tid sys"
  shows "inv_status tid (fire env tid e sys)"
proof (cases e)
  case Tick
  then show ?thesis using assms by (cases sys) (auto simp: inv_status_def split: option.splits)
next
  case Worker
  then show ?thesis using assms by (simp add: inv_status_worker)
next
  case (Approve i)
  then show ?thesis using assms
    by (cases "w_pc (snd sys)")
       (auto simp: inv_status_def after_def approve_task_def split: option.splits)
next
  case (Cancel i)
  then show ?thesis using assms
    by (cases "w_pc (snd sys)")
       (auto simp: inv_status_def after_def cancel_task_def split: option.splits)
qed

lemma ledger_all_untouched: "\<forall>j < length stps. untouched (stps ! j) \<Longrightarrow> ledger pl stps 0"
  by (simp add: ledger_def)

lemma ledger_nil: "ledger pl [] i"
  by (simp add: ledger_def)

lemma ledger_update_at: "ledger pl stps i \<Longrightarrow> ledger pl (stps[i := x]) i"
  by (auto simp: ledger_def nth_list_update)

lemma pc_ledger_weaken: "pc_ledger p pl stps \<Longrightarrow> \<exists>i. ledger pl stps i"
  by (cases p) (auto intro: ledger_all_untouched ledger_nil)

lemma inv_ledger_worker:
  assumes "inv_ledger tid sys"
  shows "inv_ledger tid (worker_step env tid sys)"
proof -
  obtain s w where sys: "sys = (s, w)" by (cases sys)
  from assms sys obtain t where t: "tasks s tid = Some t"
    by (auto simp: inv_ledger_def split: option.splits)
  from assms sys t have weak: "\<exists>i. ledger (w_steps w) (t_steps t) i"
    by (auto simp: inv_ledger_def dest: pc_ledger_weaken)
  show ?thesis
  proof (cases "w_pc w")
    case GetTask
    then show ?thesis using assms sys t
      by (auto simp: inv_ledger_def worker_step_def goto_def to_handler_def)
  next
    case SetPlanning
    then show ?thesis using assms sys t
      by (auto simp: inv_ledger_def worker_step_def goto_def to_handler_def)
  next
    case PlanTask
    then show ?thesis using assms sys t
      by (auto simp: inv_ledger_def worker_step_def goto_def to_handler_def ledger_def
          split: option.splits sum.splits)
  next
    case (AddStep k)
    then show ?thesis using assms sys t
      by (auto simp: inv_ledger_def worker_step_def goto_def to_handler_def ledger_def
          nth_append untouched_def new_step_def)
  next
    case SetExecuting
    then show ?thesis using assms sys t
      by (auto simp: inv_ledger_def worker_step_def goto_def to_handler_def ledger_def)
  next
    case (LoopHead i)
    then show ?thesis using assms sys t
      by (auto simp: inv_ledger_def worker_step_def goto_def to_handler_def)
  next
    case (MarkExecuting i)
    then show ?thesis using assms sys t
      by (auto simp: inv_ledger_def worker_step_def goto_def to_handler_def ledger_def
          nth_list_update untouched_def in_flight_def update_step_def settled_def)
  next
    case (SetWaiting i)
    then show ?thesis using assms sys t
      by (auto simp: inv_ledger_def worker_step_def goto_def to_handler_def)
  next
    case (Poll i)
    then show ?thesis using assms sys t
      by (auto simp: inv_ledger_def worker_step_def goto_def to_handler_def)
  next
    case (Dispatch i)
    then show ?thesis using assms sys t
      by (auto simp: inv_ledger_def worker_step_def goto_def to_handler_def Let_def
          split: option.splits sum.splits)
  next
    case (RecordSuccess i r)
    then show ?thesis using assms sys t
      by (auto simp: inv_ledger_def worker_step_def goto_def to_handler_def ledger_def
          nth_list_update untouched_def in_flight_def update_step_def settled_def)
  next
    case (RecordFailure i m)
    show ?thesis
    proof (cases "ps_critical (w_steps w ! i)")
      case True
      from assms sys t RecordFailure
      have "ledger (w_steps w) (t_steps t) i" and "i < length (t_steps t)"
        by (auto simp: inv_ledger_def)
      then show ?thesis using True RecordFailure sys t
        by (auto simp: inv_ledger_def worker_step_def intro: ledger_update_at)
    next
      case False
      then show ?thesis using RecordFailure assms sys t
        by (auto simp: inv_ledger_def worker_step_def goto_def to_handler_def ledger_def
            nth_list_update untouched_def in_flight_def update_step_def settled_def)
    qed
  next
    case Finalize
    then show ?thesis using assms sys t
      by (auto simp: inv_ledger_def worker_step_def goto_def to_handler_def Let_def)
  next
    case Learn
    then show ?thesis using assms sys t
      by (auto simp: inv_ledger_def worker_step_def goto_def to_handler_def
          split: sum.splits)
  next
    case (HandleError m)
    then show ?thesis using assms sys t
      by (auto simp: inv_ledger_def worker_step_def goto_def to_handler_def)
  next
    case ForceFailed
    then show ?thesis using assms sys t
      by (auto simp: inv_ledger_def worker_step_def goto_def to_handler_def)
  next
    case Cleanup
    then show ?thesis using assms sys t
      by (auto simp: inv_ledger_def worker_step_def goto_def to_handler_def)
  next
    case Done
    then show ?thesis using assms sys t
      by (auto simp: inv_ledger_def worker_step_def goto_def to_handler_def)
  qed
qed

lemma inv_ledger_fire:
  assumes "inv_ledger tid sys"
  shows "inv_ledger tid (fire env tid e sys)"
proof (cases e)
  case Worker
  then show ?thesis using assms by (simp add: inv_ledger_worker)
next
  case (Approve i)
  then show ?thesis using assms
    by (cases sys) (auto simp: inv_ledger_def after_def approve_task_def split: option.splits)
next
  case (Cancel i)
  then show ?thesis using assms
    by (cases sys) (auto simp: inv_ledger_def after_def cancel_task_def split: option.splits)
next
  case Tick
  then show ?thesis using assms
    by (cases sys) (auto simp: inv_ledger_def split: option.splits)
qed

lemma inv_fire: "inv tid sys \<Longrightarrow> inv tid (fire env tid e sys)"
  by (simp add: inv_def inv_status_fire inv_ledger_fire)

lemma inv_run: "inv tid sys \<Longrightarrow> inv tid (run env tid evs sys)"
  by (induction evs arbitrary: sys) (simp_all add: inv_fire)

lemma inv_start: "inv tid (start tid ty d ps pr s0)"
  by (simp add: inv_def inv_status_def inv_ledger_def start_def create_task_def new_task_def
      init_worker_def)

lemma worker_step_not_cancelling:
  assumes "status_of tid (fst (worker_step env tid sys)) = Some CANCELLED"
  shows "status_of tid (fst sys) = Some CANCELLED"
proof -
  obtain s w where sys: "sys = (s, w)" by (cases sys)
  show ?thesis
  proof (cases "tasks s tid")
    case None
    then show ?thesis using assms sys
      by (cases "w_pc w")
         (auto simp: worker_step_def status_of_def get_task_def update_task_status_def
            add_task_step_def update_task_step_def add_task_error_def goto_def to_handler_def
            Let_def split: option.splits sum.splits if_splits)
  next
    case (Some t)
    then show ?thesis using assms sys
      by (cases "w_pc w")
         (auto simp: worker_step_def status_of_def goto_def to_handler_def Let_def
            split: option.splits sum.splits if_splits dest!: update_task_step_frame)
  qed
qed

lemma fire_not_cancelling:
  assumes "status_of tid (fst (fire env tid e sys)) = Some CANCELLED" "e \<noteq> Cancel tid"
  shows "status_of tid (fst sys) = Some CANCELLED"
proof (cases e)
  case Worker
  then show ?thesis using assms by (simp add: worker_step_not_cancelling)
next
  case (Approve i)
  then show ?thesis using assms
    by (auto simp: status_of_def after_def approve_task_def update_task_status_def
        split: option.splits if_splits)
next
  case (Cancel i)
  then show ?thesis using assms
    by (auto simp: status_of_def after_def cancel_task_def update_task_status_def
        split: option.splits if_splits)
next
  case Tick
  then show ?thesis using assms by (simp add: status_of_def)
qed

lemma run_not_cancelling:
  "Cancel tid \<notin> set evs \<Longrightarrow> status_of tid (fst sys) \<noteq> Some CANCELLED \<Longrightarrow>
   status_of tid (fst (run env tid evs sys)) \<noteq> Some CANCELLED"
proof (induction evs arbitrary: sys)
  case Nil
  then show ?case by simp
next
  case (Cons e es)
  from Cons.prems have "status_of tid (fst (fire env tid e sys)) \<noteq> Some CANCELLED"
    using fire_not_cancelling [of tid env e sys] by auto
  with Cons show ?case by simp
qed

section \<open>Critical failure\<close>

text \<open>
  Where the failure of a critical step is recorded, the plan is aborted. Take any
  interleaving of the worker with approvals, cancellations and clock ticks, starting
  when \<^verbatim>\<open>create_task\<close> returned. If the ledger then shows a step \<open>k\<close> with status
  \<^verbatim>\<open>failed\<close> that the plan marks critical, every step after \<open>k\<close> is as
  \<^verbatim>\<open>add_task_step\<close> left it; and once the worker has finished, the task's status is
  \<^verbatim>\<open>failed\<close>, provided nobody cancelled the task.
\<close>

lemma recorded_critical_failure_aborts_plan:
  assumes run: "run env task_id evs (start task_id ty d ps pr s0) = (s, w)"
    and t: "tasks s task_id = Some t"
    and k: "k < length (t_steps t)"
    and failed: "s_status (t_steps t ! k) = ''failed''"
    and critical: "ps_critical (w_steps w ! k)"
  shows "(\<forall>j. k < j \<and> j < length (t_steps t) \<longrightarrow> untouched (t_steps t ! j)) \<and>
         (w_pc w = Done \<and> Cancel task_id \<notin> set evs \<longrightarrow> t_status t = FAILED)"
proof -
  have inv: "inv task_id (s, w)"
    using inv_run [OF inv_start, where env = env and evs = evs] run by metis
  then obtain i where led: "ledger (w_steps w) (t_steps t) i"
    using t by (auto simp: inv_def inv_ledger_def dest: pc_ledger_weaken)
  have "\<not> k < i"
    using led k failed critical by (auto simp: ledger_def settled_def)
  moreover have "\<not> i < k"
    using led k failed by (auto simp: ledger_def untouched_def)
  ultimately have "i = k" by simp
  with led have part1: "\<forall>j. k < j \<and> j < length (t_steps t) \<longrightarrow> untouched (t_steps t ! j)"
    by (simp add: ledger_def)
  have nosucc: "\<not> w_success w"
    using inv t k failed by (auto simp: inv_def inv_ledger_def)
  have part2: "t_status t = FAILED" if "w_pc w = Done" "Cancel task_id \<notin> set evs"
  proof -
    have "status_of task_id (fst (run env task_id evs (start task_id ty d ps pr s0)))
          \<noteq> Some CANCELLED"
      using that(2)
      by (intro run_not_cancelling)
         (simp_all add: start_def create_task_def new_task_def status_of_def)
    then have "t_status t \<noteq> CANCELLED" using run t by (simp add: status_of_def)
    moreover have "t_status t \<in> {SUCCEEDED, FAILED, CANCELLED}" "t_status t \<noteq> SUCCEEDED"
      using inv t that(1) nosucc by (auto simp: inv_def inv_status_def)
    ultimately show ?thesis by auto
  qed
  from part1 part2 show ?thesis by blast
qed



lemmas run_defs = start_def create_task_def new_task_def init_worker_def empty_store_def
  worker_step_def plan_task_def similar_task_id_def plan_from_planner_def create_plan_def
  fallback_plan_def goto_def to_handler_def
  registry_def new_step_def update_step_def Let_def get_task_def update_task_status_def
  add_task_step_def update_task_step_def add_task_error_def after_def approve_task_def
  cancel_task_def snapshot_view_def numeral_eq_Suc

lemma network_run:
  "run env_network ''t1'' (replicate 13 Worker) (start ''t1'' ''demo'' ''x'' [] ''low'' empty_store)
   = (\<lparr>tasks = [''t1'' \<mapsto>
         \<lparr>t_id = ''t1'', t_type = ''demo'', t_description = ''x'', t_parameters = [],
          t_priority = ''low'', t_status = FAILED, t_created_at = 0, t_updated_at = 0,
          t_steps = [\<lparr>s_description = ''Probe the switch'', s_status = ''failed'',
                      s_created_at = 0, s_updated_at = 0, s_result = None,
                      s_error = Some (str_exn (KeyError ''network''))\<rparr>,
                     \<lparr>s_description = ''Verify the result'', s_status = ''pending'',
                      s_created_at = 0, s_updated_at = 0, s_result = None, s_error = None\<rparr>],
          t_result = None, t_error = None\<rparr>],
        active_tasks = {}, clock = 0\<rparr>,
      \<lparr>w_pc = Done,
       w_task = Some (new_task ''t1'' ''demo'' ''x'' [] ''low'' 0),
       w_steps = p_steps network_plan, w_success = False\<rparr>)"
  by (simp add: run_defs env_network_def network_plan_def)

lemma recorded_critical_failure_example:
  "\<exists>s w t. run env_network ''t1'' (replicate 13 Worker)
              (start ''t1'' ''demo'' ''x'' [] ''low'' empty_store) = (s, w) \<and>
     tasks s ''t1'' = Some t \<and> 0 < length (t_steps t) \<and>
     s_status (t_steps t ! 0) = ''failed'' \<and> ps_critical (w_steps w ! 0) \<and>
     (\<forall>j. 0 < j \<and> j < length (t_steps t) \<longrightarrow> untouched (t_steps t ! j)) \<and>
     w_pc w = Done \<and> Cancel ''t1'' \<notin> set (replicate 13 Worker) \<and> t_status t = FAILED"
proof -
  let ?t = "\<lparr>t_id = ''t1'', t_type = ''demo'', t_description = ''x'', t_parameters = [],
          t_priority = ''low'', t_status = FAILED, t_created_at = 0, t_updated_at = 0,
          t_steps = [\<lparr>s_description = ''Probe the switch'', s_status = ''failed'',
                      s_created_at = 0, s_updated_at = 0, s_result = None,
                      s_error = Some (str_exn (KeyError ''network''))\<rparr>,
                     \<lparr>s_description = ''Verify the result'', s_status = ''pending'',
                      s_created_at = 0, s_updated_at = 0, s_result = None, s_error = None\<rparr>],
          t_result = None, t_error = None\<rparr>"
  let ?s = "\<lparr>tasks = [''t1'' \<mapsto> ?t], active_tasks = {}, clock = 0\<rparr>"
  let ?w = "\<lparr>w_pc = Done, w_task = Some (new_task ''t1'' ''demo'' ''x'' [] ''low'' 0),
       w_steps = p_steps network_plan, w_success = False\<rparr>"
  have t: "tasks ?s ''t1'' = Some ?t" by simp
  have k: "0 < length (t_steps ?t)" by simp
  have f: "s_status (t_steps ?t ! 0) = ''failed''" by simp
  have c: "ps_critical (w_steps ?w ! 0)" by (simp add: network_plan_def)
  from recorded_critical_failure_aborts_plan [OF network_run t k f c]
  show ?thesis using network_run t by (intro exI [of _ ?s] exI [of _ ?w] exI [of _ ?t]) (simp add: network_plan_def)
qed

section \<open>Progress when approvals are answered\<close>

lemma worker_step_rank:
  assumes "inv tid sys" "planned (w_pc (snd sys))" "w_pc (snd sys) \<noteq> Done"
    "status_of tid (fst sys) \<noteq> Some WAITING_FOR_APPROVAL"
  shows "rank (length (w_steps (snd sys))) (w_pc (snd (worker_step env tid sys)))
           < rank (length (w_steps (snd sys))) (w_pc (snd sys)) \<and>
         w_steps (snd (worker_step env tid sys)) = w_steps (snd sys) \<and>
         planned (w_pc (snd (worker_step env tid sys)))"
proof -
  obtain s w where sys: "sys = (s, w)" by (cases sys)
  from assms sys obtain t where t: "tasks s tid = Some t"
    by (auto simp: inv_def inv_status_def split: option.splits)
  show ?thesis
    using assms sys t
    by (cases "w_pc w")
       (auto simp: inv_def inv_status_def inv_ledger_def worker_step_def planned_def goto_def
          to_handler_def status_of_def Let_def split: sum.splits option.splits)
qed

lemma inv_attend: "inv tid sys \<Longrightarrow> inv tid (attend env tid sys)"
  by (simp add: attend_def inv_fire del: fire.simps)

lemma attend_rank:
  assumes "inv tid sys" "planned (w_pc (snd sys))" "w_pc (snd sys) \<noteq> Done"
  shows "sys_rank tid (attend env tid sys) < sys_rank tid sys \<and>
         planned (w_pc (snd (attend env tid sys)))"
proof (cases "status_of tid (fst sys) = Some WAITING_FOR_APPROVAL")
  case True
  then show ?thesis using assms
    by (cases sys)
       (auto simp: attend_def sys_rank_def after_def approve_task_def status_of_def
          split: option.splits)
next
  case False
  from worker_step_rank [OF assms False, of env]
  show ?thesis using False
    by (simp add: attend_def sys_rank_def)
qed

lemma attend_Done:
  assumes "inv tid sys" "w_pc (snd sys) = Done"
  shows "attend env tid sys = sys"
  using assms
  by (cases sys)
     (auto simp: attend_def inv_def inv_status_def status_of_def worker_step_def
        split: option.splits)

lemma drive_Done:
  "inv tid sys \<Longrightarrow> w_pc (snd sys) = Done \<Longrightarrow> drive env tid n sys = sys"
  by (induction n) (simp_all add: attend_Done)

lemma drive_terminates:
  "inv tid sys \<Longrightarrow> planned (w_pc (snd sys)) \<Longrightarrow> sys_rank tid sys \<le> n \<Longrightarrow>
   w_pc (snd (drive env tid n sys)) = Done"
proof (induction n arbitrary: sys)
  case 0
  then show ?case
    by (cases "w_pc (snd sys)") (simp_all add: sys_rank_def planned_def)
next
  case (Suc n)
  show ?case
  proof (cases "w_pc (snd sys) = Done")
    case True
    then show ?thesis using Suc.prems(1) drive_Done [of tid sys env "Suc n"] by simp
  next
    case False
    from attend_rank [OF Suc.prems(1,2) False, of env] Suc.prems(3)
    have "sys_rank tid (attend env tid sys) \<le> n" "planned (w_pc (snd (attend env tid sys)))"
      by simp_all
    with Suc.IH [of "attend env tid sys"] Suc.prems(1) show ?thesis
      by (simp add: inv_attend)
  qed
qed




lemma map_description_update:
  "map s_description (stps[i := update_step a b c now (stps ! i)]) = map s_description stps"
  by (cases "i < length stps")
     (auto intro!: nth_equalityI simp: nth_list_update update_step_def)

lemma inv_plan_worker:
  assumes "inv_plan tid sys"
  shows "inv_plan tid (worker_step env tid sys)"
proof -
  obtain s w where sys: "sys = (s, w)" by (cases sys)
  from assms sys obtain t where t: "tasks s tid = Some t"
    by (auto simp: inv_plan_def split: option.splits)
  show ?thesis
  proof (cases "w_pc w")
    case (AddStep k)
    then show ?thesis using assms sys t
      by (auto simp: inv_plan_def worker_step_def goto_def to_handler_def new_step_def
          take_Suc_conv_app_nth)
  next
    case (MarkExecuting i)
    then show ?thesis using assms sys t
      by (auto simp: inv_plan_def worker_step_def goto_def to_handler_def update_task_step_def
          map_description_update split: if_splits)
  next
    case (RecordSuccess i r)
    then show ?thesis using assms sys t
      by (auto simp: inv_plan_def worker_step_def goto_def to_handler_def update_task_step_def
          map_description_update split: if_splits)
  next
    case (RecordFailure i m)
    then show ?thesis using assms sys t
      by (auto simp: inv_plan_def worker_step_def goto_def to_handler_def update_task_step_def
          map_description_update split: if_splits)
  qed (use assms sys t in \<open>auto simp: inv_plan_def worker_step_def goto_def to_handler_def
          Let_def split: sum.splits option.splits\<close>)
qed

lemma inv_plan_attend:
  assumes "inv_plan tid sys"
  shows "inv_plan tid (attend env tid sys)"
proof (cases "status_of tid (fst sys) = Some WAITING_FOR_APPROVAL")
  case True
  then show ?thesis using assms
    by (cases sys; cases "w_pc (snd sys)")
       (auto simp: attend_def inv_plan_def after_def approve_task_def split: option.splits)
next
  case False
  then show ?thesis using assms by (simp add: attend_def inv_plan_worker)
qed

lemma inv_plan_drive: "inv_plan tid sys \<Longrightarrow> inv_plan tid (drive env tid n sys)"
  by (induction n arbitrary: sys) (simp_all add: inv_plan_attend)

lemma inv_drive: "inv tid sys \<Longrightarrow> inv tid (drive env tid n sys)"
  by (induction n arbitrary: sys) (simp_all add: inv_attend)

lemma attend_w_steps:
  assumes "inv tid sys" "planned (w_pc (snd sys))"
  shows "w_steps (snd (attend env tid sys)) = w_steps (snd sys) \<and>
         planned (w_pc (snd (attend env tid sys)))"
proof (cases "w_pc (snd sys) = Done")
  case True
  then show ?thesis using assms attend_Done [of tid sys env] by simp
next
  case notDone: False
  show ?thesis
  proof (cases "status_of tid (fst sys) = Some WAITING_FOR_APPROVAL")
    case True
    then show ?thesis using assms by (simp add: attend_def)
  next
    case False
    from worker_step_rank [OF assms notDone False, of env] False
    show ?thesis by (simp add: attend_def)
  qed
qed

lemma drive_w_steps:
  "inv tid sys \<Longrightarrow> planned (w_pc (snd sys)) \<Longrightarrow>
   w_steps (snd (drive env tid n sys)) = w_steps (snd sys)"
proof (induction n arbitrary: sys)
  case 0
  then show ?case by simp
next
  case (Suc n)
  from attend_w_steps [OF Suc.prems, of env] Suc.IH [of "attend env tid sys"] Suc.prems(1)
  show ?case by (simp add: inv_attend)
qed

lemma drive_add: "drive env tid (m + n) sys = drive env tid n (drive env tid m sys)"
  by (induction m arbitrary: sys) simp_all

lemma plan_task_no_reuse:
  assumes "search_similar_tasks env (t_description t) = Inr sims"
    and "similar_task_id env t sims = None \<or> similar_task_id env t sims = Some []"
  shows "plan_task env t = Inr (plan_from_planner env t)"
  using assms by (auto simp: plan_task_def)

lemma drive_to_plan:
  assumes "plan_task env (new_task tid ty d ps pr (clock s0)) = Inr pl"
  shows "drive env tid 3 (start tid ty d ps pr s0) =
     (s0\<lparr>tasks := (tasks s0)(tid \<mapsto>
            (new_task tid ty d ps pr (clock s0))\<lparr>t_status := PLANNING, t_updated_at := clock s0\<rparr>),
          active_tasks := insert tid (active_tasks s0)\<rparr>,
      \<lparr>w_pc = AddStep 0, w_task = Some (new_task tid ty d ps pr (clock s0)),
       w_steps = p_steps pl, w_success = True\<rparr>)"
  using assms
  by (simp add: numeral_3_eq_3 attend_def status_of_def start_def create_task_def
      init_worker_def worker_step_def goto_def new_task_def)

section \<open>Planner failure\<close>

text \<open>
  Claim C6. Let the planner's chain raise for a freshly created task, the task manager
  having found no prior task to reuse, so that the planner is asked. Then \<^verbatim>\<open>create_plan\<close> and \<^verbatim>\<open>plan_task\<close> return (nothing is
  raised): the plan has exactly two steps, first a critical, approval-requiring step for
  the execution agent that carries the task's parameters, second a non-critical step
  without approval for the validation agent. With every approval gate answered, the
  worker finishes after at most 47 transitions, the task's status is then terminal, and
  the task's step ledger holds the two steps of the fallback plan.
\<close>

theorem planner_failure_falls_back:
  assumes search: "search_similar_tasks env d = Inr sims"
    and no_reuse: "similar_task_id env (new_task tid ty d ps pr (clock s0)) sims = None \<or>
                   similar_task_id env (new_task tid ty d ps pr (clock s0)) sims = Some []"
    and chain: "planning_chain env (new_task tid ty d ps pr (clock s0)) = Inl e"
    and n: "47 \<le> n"
  shows "plan_task env (new_task tid ty d ps pr (clock s0))
           = Inr (create_plan (planning_chain env) (default_checks env)
                    (new_task tid ty d ps pr (clock s0))) \<and>
         create_plan (planning_chain env) (default_checks env)
           (new_task tid ty d ps pr (clock s0)) = fallback_plan (new_task tid ty d ps pr (clock s0)) \<and>
         p_steps (create_plan (planning_chain env) (default_checks env)
                    (new_task tid ty d ps pr (clock s0))) =
           [\<lparr>ps_description = ''Execute '' @ ty @ '' operation'', ps_agent_type = ''execution'',
             ps_requires_approval = True, ps_critical = True, ps_parameters = ps\<rparr>,
            \<lparr>ps_description = ''Verify '' @ ty @ '' operation result'',
             ps_agent_type = ''validation'', ps_requires_approval = False,
             ps_critical = False, ps_parameters = []\<rparr>] \<and>
         (\<exists>s w t. drive env tid n (start tid ty d ps pr s0) = (s, w) \<and> w_pc w = Done \<and>
            tasks s tid = Some t \<and> terminal (t_status t) \<and>
            map s_description (t_steps t) =
              [''Execute '' @ ty @ '' operation'', ''Verify '' @ ty @ '' operation result''])"
proof -
  let ?t0 = "new_task tid ty d ps pr (clock s0)"
  let ?pl = "create_plan (planning_chain env) (default_checks env) ?t0"
  have pt: "plan_task env ?t0 = Inr ?pl"
    using plan_task_no_reuse [of env ?t0 sims] search no_reuse
    by (simp add: plan_from_planner_def new_task_def)
  have fb: "?pl = fallback_plan ?t0"
    using chain by (simp add: create_plan_def)
  have steps: "p_steps ?pl =
           [\<lparr>ps_description = ''Execute '' @ ty @ '' operation'', ps_agent_type = ''execution'',
             ps_requires_approval = True, ps_critical = True, ps_parameters = ps\<rparr>,
            \<lparr>ps_description = ''Verify '' @ ty @ '' operation result'',
             ps_agent_type = ''validation'', ps_requires_approval = False,
             ps_critical = False, ps_parameters = []\<rparr>]"
    using chain by (simp add: create_plan_def fallback_plan_def new_task_def)
  let ?sys0 = "start tid ty d ps pr s0"
  let ?sys3 = "drive env tid 3 ?sys0"
  have inv3: "inv tid ?sys3" by (simp add: inv_drive inv_start)
  have plan3: "inv_plan tid ?sys3"
    by (intro inv_plan_drive)
       (simp add: inv_plan_def start_def create_task_def new_task_def init_worker_def)
  have w3: "w_pc (snd ?sys3) = AddStep 0" "w_steps (snd ?sys3) = p_steps ?pl"
    using drive_to_plan [OF pt] by simp_all
  have planned3: "planned (w_pc (snd ?sys3))" using w3 by (simp add: planned_def)
  have rank3: "sys_rank tid ?sys3 \<le> n - 3"
    using n drive_to_plan [OF pt] steps by (simp add: sys_rank_def status_of_def)
  have split: "drive env tid n ?sys0 = drive env tid (n - 3) ?sys3"
    using n drive_add [of env tid 3 "n - 3" ?sys0] by simp
  obtain s w where sw: "drive env tid n ?sys0 = (s, w)" by (cases "drive env tid n ?sys0")
  have "w_pc (snd (drive env tid n ?sys0)) = Done"
    using drive_terminates [OF inv3 planned3 rank3, of env] by (simp add: split)
  then have fin: "w_pc w = Done" by (simp add: sw)
  have "w_steps (snd (drive env tid n ?sys0)) = p_steps ?pl"
    using drive_w_steps [OF inv3 planned3, of env "n - 3"] w3 by (simp add: split)
  then have wsteps: "w_steps w = p_steps ?pl" by (simp add: sw)
  have "inv tid (drive env tid n ?sys0)"
    using inv_drive [OF inv3, of env "n - 3"] by (simp add: split)
  then have invn: "inv tid (s, w)" by (simp add: sw)
  have "inv_plan tid (drive env tid n ?sys0)"
    using inv_plan_drive [OF plan3, of env "n - 3"] by (simp add: split)
  then have plann: "inv_plan tid (s, w)" by (simp add: sw)
  from invn obtain t where t: "tasks s tid = Some t"
    by (auto simp: inv_def inv_status_def split: option.splits)
  have "terminal (t_status t)"
    using invn t fin by (auto simp: inv_def inv_status_def terminal_def)
  moreover have "map s_description (t_steps t) =
      [''Execute '' @ ty @ '' operation'', ''Verify '' @ ty @ '' operation result'']"
    using plann t fin wsteps steps by (simp add: inv_plan_def)
  ultimately show ?thesis using pt fb steps sw fin t by simp
qed

theorem planner_failure_falls_back_witness:
  "search_similar_tasks env_fallback ''x'' = Inr [prior_task] \<and>
   similar_task_id env_fallback (new_task ''t1'' ''demo'' ''x'' [] ''low'' 0) [prior_task] = None \<and>
   planning_chain env_fallback (new_task ''t1'' ''demo'' ''x'' [] ''low'' 0)
     = Inl (Exception ''model unavailable'') \<and>
   (\<exists>s w t. drive env_fallback ''t1'' 47 (start ''t1'' ''demo'' ''x'' [] ''low'' empty_store) = (s, w) \<and>
      w_pc w = Done \<and> tasks s ''t1'' = Some t \<and> terminal (t_status t) \<and>
      map s_description (t_steps t) = [''Execute demo operation'', ''Verify demo operation result''])"
  using planner_failure_falls_back
    [of env_fallback "''x''" "[prior_task]" "''t1''" "''demo''" "[]" "''low''" empty_store
        "Exception ''model unavailable''" 47]
  by (simp add: env_fallback_def similar_task_id_def reusable_def parameter_similarity_def
      prior_task_def params_b_def new_task_def empty_store_def)

section \<open>Recording the outcome of a step\<close>

lemmas fallback_defs = env_fallback_def env_learning_fails_def prior_task_def params_b_def
  reusable_def parameter_similarity_def execution_execute_step_def validation_execute_step_def
  approved_run_def status_of_def

lemmas learning_defs = learning_agent_def learning_learn_from_task_def and_then_def
  extract_details_def py_in_def py_index_def kb_accepting_def


lemmas command_defs = env_command_fails_def command_plan_def backends_failing_def backends0_def
  failed_command_result_def execution_execute_step_def validation_execute_step_def remote_def

text \<open>
  Claim C1 at an input on which the code departs from it. A task without parameters is
  planned by the fallback plan; its first step goes to the execution agent, which finds
  no command, script or playbook among the step's parameters and returns a result whose
  status is \<^verbatim>\<open>error\<close>. The worker records that result with step status
  \<^verbatim>\<open>succeeded\<close> and leaves the step's error unset. With a learning agent that
  returns, the task finishes as succeeded. With the learning agent of the source the
  steps are recorded in the same way and the final status \<^verbatim>\<open>succeeded\<close> is written,
  but the agent then raises on the text in the result's details, and the task ends failed.
\<close>

theorem returned_error_recorded_as_succeeded:
  "map_option
     (\<lambda>t. (t_status t, map s_status (t_steps t),
            map (\<lambda>st. map_option sr_status (s_result st)) (t_steps t),
            map s_error (t_steps t)))
     (tasks (fst (run env_fallback ''t1'' approved_run
                    (start ''t1'' ''demo'' ''x'' [] ''low'' empty_store))) ''t1'')
   = Some (SUCCEEDED, [''succeeded'', ''succeeded''], [Some ''error'', Some ''success''],
           [None, None]) \<and>
   map_option
     (\<lambda>t. (t_status t, map s_status (t_steps t),
            map (\<lambda>st. map_option sr_status (s_result st)) (t_steps t),
            map s_error (t_steps t)))
     (tasks (fst (run env_fallback_learning ''t1'' (approved_run @ [Worker, Worker])
                    (start ''t1'' ''demo'' ''x'' [] ''low'' empty_store))) ''t1'')
   = Some (FAILED, [''succeeded'', ''succeeded''], [Some ''error'', Some ''success''],
           [None, None])"
  by (simp add: run_defs fallback_defs env_fallback_learning_def learning_defs quoted_def)

text \<open>
  Claim C5 at an input on which the code departs from it. The plan's first step is
  critical and runs a command that exits with return code 1; the second step validates.
  The execution agent returns a result with status \<^verbatim>\<open>error\<close> for the first step.
  The worker records the step as \<^verbatim>\<open>succeeded\<close>, does not abort the plan, runs the
  second step, and finishes the task as \<^verbatim>\<open>succeeded\<close>, the learning agent of the
  source included.
\<close>

theorem critical_error_result_does_not_abort:
  "ps_critical (p_steps command_plan ! 0) \<and>
   execution_execute_step backends_failing
     (new_task ''t1'' ''demo'' ''x'' [] ''low'' 0) (p_steps command_plan ! 0) 0
     = Inr failed_command_result \<and>
   sr_status failed_command_result = ''error'' \<and>
   w_pc (snd (run env_command_fails ''t1'' (replicate 19 Worker)
                (start ''t1'' ''demo'' ''x'' [] ''low'' empty_store))) = Done \<and>
   map_option
     (\<lambda>t. (t_status t, map s_status (t_steps t),
            map (\<lambda>st. map_option sr_status (s_result st)) (t_steps t),
            map s_error (t_steps t)))
     (tasks (fst (run env_command_fails ''t1'' (replicate 19 Worker)
                    (start ''t1'' ''demo'' ''x'' [] ''low'' empty_store))) ''t1'')
   = Some (SUCCEEDED, [''succeeded'', ''succeeded''], [Some ''error'', Some ''success''],
           [None, None])"
  by (simp add: run_defs command_defs learning_defs)

section \<open>Failure of the learning agent\<close>

text \<open>
  Claim C4, as stated, against the code: the task has reached \<^verbatim>\<open>succeeded\<close>, the
  learning agent raises, and the task ends \<^verbatim>\<open>failed\<close> with the exception as its error.
\<close>

theorem learning_failure_counterexample:
  "status_of ''t1'' (fst (run env_learning_fails ''t1'' at_learn
       (start ''t1'' ''demo'' ''x'' [] ''low'' empty_store))) = Some SUCCEEDED \<and>
   w_pc (snd (run env_learning_fails ''t1'' at_learn
       (start ''t1'' ''demo'' ''x'' [] ''low'' empty_store))) = Learn \<and>
   map_option (\<lambda>t. (t_status t, t_error t))
     (tasks (fst (run env_learning_fails ''t1'' (at_learn @ replicate 4 Worker)
       (start ''t1'' ''demo'' ''x'' [] ''low'' empty_store))) ''t1'')
     = Some (FAILED, Some ''knowledge base unavailable'')"
  by (simp add: run_defs fallback_defs at_learn_def)

text \<open>
  Claim C4, amended. Let the worker stand before the call of \<^verbatim>\<open>learn_from_task\<close>, the
  task being \<^verbatim>\<open>succeeded\<close>. If the call returns, the worker finishes and the status is
  still \<^verbatim>\<open>succeeded\<close>. If the call raises, the worker's top-level handler records the
  exception text as the task's error and sets the status to \<^verbatim>\<open>failed\<close>.
\<close>

theorem learning_outcome:
  assumes "tasks s tid = Some t" "t_status t = SUCCEEDED" "w_pc w = Learn"
  shows "(\<forall>u. learn_from_task env tid t = Inr u \<longrightarrow>
            status_of tid (fst (run env tid [Worker, Worker] (s, w))) = Some SUCCEEDED \<and>
            w_pc (snd (run env tid [Worker, Worker] (s, w))) = Done) \<and>
         (\<forall>e. learn_from_task env tid t = Inl e \<longrightarrow>
            map_option (\<lambda>t'. (t_status t', t_error t'))
              (tasks (fst (run env tid [Worker, Worker, Worker, Worker] (s, w))) tid)
              = Some (FAILED, Some (str_exn e)) \<and>
            w_pc (snd (run env tid [Worker, Worker, Worker, Worker] (s, w))) = Done)"
  using assms
  by (auto simp: worker_step_def goto_def to_handler_def status_of_def)

theorem learning_outcome_witness:
  "\<exists>s w t. run env_fallback ''t1'' at_learn (start ''t1'' ''demo'' ''x'' [] ''low'' empty_store) = (s, w) \<and>
     tasks s ''t1'' = Some t \<and> t_status t = SUCCEEDED \<and> w_pc w = Learn \<and>
     learn_from_task env_fallback ''t1'' t = Inr () \<and>
     status_of ''t1'' (fst (run env_fallback ''t1'' [Worker, Worker] (s, w))) = Some SUCCEEDED \<and>
     learn_from_task env_learning_fails ''t1'' t = Inl (Exception ''knowledge base unavailable'') \<and>
     map_option (\<lambda>t'. (t_status t', t_error t'))
       (tasks (fst (run env_learning_fails ''t1'' [Worker, Worker, Worker, Worker] (s, w))) ''t1'')
       = Some (FAILED, Some ''knowledge base unavailable'')"
proof -
  define sys where
    "sys = run env_fallback ''t1'' at_learn (start ''t1'' ''demo'' ''x'' [] ''low'' empty_store)"
  have pc: "w_pc (snd sys) = Learn"
    unfolding sys_def by (simp add: run_defs fallback_defs at_learn_def)
  have "status_of ''t1'' (fst sys) = Some SUCCEEDED"
    unfolding sys_def by (simp add: run_defs fallback_defs at_learn_def)
  then obtain t where t: "tasks (fst sys) ''t1'' = Some t" "t_status t = SUCCEEDED"
    by (auto simp: status_of_def)
  have l1: "learn_from_task env_fallback ''t1'' t = Inr ()"
    and l2: "learn_from_task env_learning_fails ''t1'' t
               = Inl (Exception ''knowledge base unavailable'')"
    by (simp_all add: env_fallback_def env_learning_fails_def)
  from learning_outcome [OF t pc, of env_fallback] l1
  have a: "status_of ''t1'' (fst (run env_fallback ''t1'' [Worker, Worker] (fst sys, snd sys)))
             = Some SUCCEEDED" by simp
  from learning_outcome [OF t pc, of env_learning_fails] l2
  have b: "map_option (\<lambda>t'. (t_status t', t_error t'))
       (tasks (fst (run env_learning_fails ''t1'' [Worker, Worker, Worker, Worker]
                      (fst sys, snd sys))) ''t1'')
       = Some (FAILED, Some ''knowledge base unavailable'')" by simp
  show ?thesis
    using t pc l1 l2 a b
    by (intro exI [of _ "fst sys"] exI [of _ "snd sys"] exI [of _ t]) (simp add: sys_def)
qed

section \<open>Unknown agent types\<close>

text \<open>
  Claim C7, as stated, against the code: the plan's first step names the agent type
  \<^verbatim>\<open>network\<close>, which the registry does not hold; the task is nevertheless set to
  \<^verbatim>\<open>executing\<close> with no error, and the missing agent shows only when the step is
  dispatched, as the step's failure.
\<close>

theorem unknown_agent_counterexample:
  "agents env_network (ps_agent_type (p_steps network_plan ! 0)) = None \<and>
   map_option (\<lambda>t. (t_status t, t_error t))
     (tasks (fst (run env_network ''t1'' (replicate 7 Worker)
        (start ''t1'' ''demo'' ''x'' [] ''low'' empty_store))) ''t1'')
     = Some (EXECUTING, None) \<and>
   w_pc (snd (run env_network ''t1'' (replicate 10 Worker)
        (start ''t1'' ''demo'' ''x'' [] ''low'' empty_store)))
     = RecordFailure 0 (str_exn (KeyError ''network''))"
  by (simp add: run_defs env_network_def network_plan_def)

text \<open>
  Claim C7, amended. The worker sets the task to \<^verbatim>\<open>executing\<close> whatever the agent
  types of the plan are. A step whose agent type is not in the registry fails when it is
  dispatched: the step's status becomes \<^verbatim>\<open>failed\<close>, the text of the lookup's KeyError
  is recorded as its error, the task's status is not touched, and the worker goes on to
  the next step, or to the final status if the step is critical.
\<close>

theorem unknown_agent_fails_at_dispatch:
  assumes "tasks s tid = Some t" "i < length (t_steps t)"
    and "agents env (ps_agent_type (w_steps w ! i)) = None"
  shows "(w_pc w = SetExecuting \<longrightarrow>
            status_of tid (fst (worker_step env tid (s, w))) = Some EXECUTING) \<and>
         (w_pc w = Dispatch i \<longrightarrow>
            (\<exists>t'. tasks (fst (run env tid [Worker, Worker] (s, w))) tid = Some t' \<and>
               s_status (t_steps t' ! i) = ''failed'' \<and>
               s_error (t_steps t' ! i) = Some (str_exn (KeyError (ps_agent_type (w_steps w ! i)))) \<and>
               t_status t' = t_status t) \<and>
            \<not> w_success (snd (run env tid [Worker, Worker] (s, w))) \<and>
            w_pc (snd (run env tid [Worker, Worker] (s, w)))
              = (if ps_critical (w_steps w ! i) then Finalize else LoopHead (Suc i)))"
  using assms
  by (auto simp: worker_step_def goto_def status_of_def Let_def update_step_def)

theorem unknown_agent_fails_at_dispatch_witness:
  "(\<exists>s w t. run env_network ''t1'' (replicate 6 Worker)
              (start ''t1'' ''demo'' ''x'' [] ''low'' empty_store) = (s, w) \<and>
     tasks s ''t1'' = Some t \<and> 0 < length (t_steps t) \<and>
     agents env_network (ps_agent_type (w_steps w ! 0)) = None \<and> w_pc w = SetExecuting \<and>
     status_of ''t1'' (fst (worker_step env_network ''t1'' (s, w))) = Some EXECUTING) \<and>
   (\<exists>s w t. run env_network ''t1'' (replicate 9 Worker)
              (start ''t1'' ''demo'' ''x'' [] ''low'' empty_store) = (s, w) \<and>
     tasks s ''t1'' = Some t \<and> 0 < length (t_steps t) \<and>
     agents env_network (ps_agent_type (w_steps w ! 0)) = None \<and> w_pc w = Dispatch 0 \<and>
     (\<exists>t'. tasks (fst (run env_network ''t1'' [Worker, Worker] (s, w))) ''t1'' = Some t' \<and>
        s_status (t_steps t' ! 0) = ''failed'' \<and>
        s_error (t_steps t' ! 0) = Some (str_exn (KeyError ''network''))) \<and>
     w_pc (snd (run env_network ''t1'' [Worker, Worker] (s, w))) = Finalize)"
proof -
  define sys where
    "sys = run env_network ''t1'' (replicate 9 Worker)
             (start ''t1'' ''demo'' ''x'' [] ''low'' empty_store)"
  have pc: "w_pc (snd sys) = Dispatch 0" and pl: "w_steps (snd sys) = p_steps network_plan"
    unfolding sys_def by (simp_all add: run_defs env_network_def network_plan_def)
  have "map_option (\<lambda>t. length (t_steps t)) (tasks (fst sys) ''t1'') = Some 2"
    unfolding sys_def by (simp add: run_defs env_network_def network_plan_def)
  then obtain t where t: "tasks (fst sys) ''t1'' = Some t" and len: "0 < length (t_steps t)"
    by force
  have ag: "agents env_network (ps_agent_type (w_steps (snd sys) ! 0)) = None"
    by (simp add: pl env_network_def network_plan_def registry_def)
  from unknown_agent_fails_at_dispatch [OF t len ag] pc pl
  have "(\<exists>t'. tasks (fst (run env_network ''t1'' [Worker, Worker] (fst sys, snd sys))) ''t1'' = Some t' \<and>
        s_status (t_steps t' ! 0) = ''failed'' \<and>
        s_error (t_steps t' ! 0) = Some (str_exn (KeyError ''network''))) \<and>
     w_pc (snd (run env_network ''t1'' [Worker, Worker] (fst sys, snd sys))) = Finalize"
    by (auto simp: network_plan_def)
  then have second: "\<exists>s w t. run env_network ''t1'' (replicate 9 Worker)
              (start ''t1'' ''demo'' ''x'' [] ''low'' empty_store) = (s, w) \<and>
     tasks s ''t1'' = Some t \<and> 0 < length (t_steps t) \<and>
     agents env_network (ps_agent_type (w_steps w ! 0)) = None \<and> w_pc w = Dispatch 0 \<and>
     (\<exists>t'. tasks (fst (run env_network ''t1'' [Worker, Worker] (s, w))) ''t1'' = Some t' \<and>
        s_status (t_steps t' ! 0) = ''failed'' \<and>
        s_error (t_steps t' ! 0) = Some (str_exn (KeyError ''network''))) \<and>
     w_pc (snd (run env_network ''t1'' [Worker, Worker] (s, w))) = Finalize"
    using t len ag pc
    by (intro exI [of _ "fst sys"] exI [of _ "snd sys"] exI [of _ t]) (simp add: sys_def)
  define sys' where
    "sys' = run env_network ''t1'' (replicate 6 Worker)
             (start ''t1'' ''demo'' ''x'' [] ''low'' empty_store)"
  have pc': "w_pc (snd sys') = SetExecuting" and pl': "w_steps (snd sys') = p_steps network_plan"
    unfolding sys'_def by (simp_all add: run_defs env_network_def network_plan_def)
  have "map_option (\<lambda>t. length (t_steps t)) (tasks (fst sys') ''t1'') = Some 2"
    unfolding sys'_def by (simp add: run_defs env_network_def network_plan_def)
  then obtain t' where t': "tasks (fst sys') ''t1'' = Some t'" and len': "0 < length (t_steps t')"
    by force
  have ag': "agents env_network (ps_agent_type (w_steps (snd sys') ! 0)) = None"
    by (simp add: pl' env_network_def network_plan_def registry_def)
  from unknown_agent_fails_at_dispatch [OF t' len' ag'] pc'
  have "status_of ''t1'' (fst (worker_step env_network ''t1'' (fst sys', snd sys'))) = Some EXECUTING"
    by simp
  then have first: "\<exists>s w t. run env_network ''t1'' (replicate 6 Worker)
              (start ''t1'' ''demo'' ''x'' [] ''low'' empty_store) = (s, w) \<and>
     tasks s ''t1'' = Some t \<and> 0 < length (t_steps t) \<and>
     agents env_network (ps_agent_type (w_steps w ! 0)) = None \<and> w_pc w = SetExecuting \<and>
     status_of ''t1'' (fst (worker_step env_network ''t1'' (s, w))) = Some EXECUTING"
    using t' len' ag' pc'
    by (intro exI [of _ "fst sys'"] exI [of _ "snd sys'"] exI [of _ t']) (simp add: sys'_def)
  from first second show ?thesis by (rule conjI)
qed

section \<open>Status transitions\<close>










section \<open>Cancellation at the approval gate\<close>

lemma cancelled_wait_fire:
  assumes "cancelled_wait tid i stps sys"
  shows "cancelled_wait tid i stps (fire env tid ev sys) \<and>
         halt_rank (w_pc (snd (fire env tid ev sys)))
           \<le> halt_rank (w_pc (snd sys)) - (if ev = Worker then 1 else 0)"
proof -
  obtain s w where sys: "sys = (s, w)" by (cases sys)
  from assms sys obtain t where t: "tasks s tid = Some t"
    by (auto simp: cancelled_wait_def split: option.splits)
  show ?thesis
  proof (cases ev)
    case Worker
    then show ?thesis using assms sys t
      by (auto simp: cancelled_wait_def worker_step_def goto_def)
  next
    case (Approve j)
    then show ?thesis using assms sys t
      by (auto simp: cancelled_wait_def after_def approve_task_def split: option.splits)
  next
    case (Cancel j)
    then show ?thesis using assms sys t
      by (auto simp: cancelled_wait_def after_def cancel_task_def split: option.splits)
  next
    case Tick
    then show ?thesis using assms sys t by (auto simp: cancelled_wait_def)
  qed
qed

lemma cancelled_wait_run:
  "cancelled_wait tid i stps sys \<Longrightarrow>
   cancelled_wait tid i stps (run env tid evs sys) \<and>
   halt_rank (w_pc (snd (run env tid evs sys)))
     \<le> halt_rank (w_pc (snd sys)) - count_list evs Worker"
proof (induction evs arbitrary: sys)
  case Nil
  then show ?case by simp
next
  case (Cons ev evs)
  from cancelled_wait_fire [OF Cons.prems, of env ev]
  have step: "cancelled_wait tid i stps (fire env tid ev sys)"
    and rk: "halt_rank (w_pc (snd (fire env tid ev sys)))
               \<le> halt_rank (w_pc (snd sys)) - (if ev = Worker then 1 else 0)"
    by simp_all
  from Cons.IH [OF step] rk show ?case by auto
qed

text \<open>
  Claim C10. Let the worker of a task stand in the approval wait loop of step \<open>i\<close>, in
  any state the system reaches from the task's creation, and let \<^verbatim>\<open>cancel_task\<close> be
  called. Whatever happens afterwards, the task stays \<^verbatim>\<open>cancelled\<close>, step \<open>i\<close> keeps
  the status \<^verbatim>\<open>executing\<close> with neither result nor error, every later step is
  untouched, the task has no result, and the worker is still polling or on its way out;
  after two more transitions of its own the worker has finished.
\<close>

theorem cancel_during_approval_wait:
  assumes "run env tid evs (start tid ty d ps pr s0) = sys"
    and "w_pc (snd sys) = Poll i"
    and "run env tid evs' (fire env tid (Cancel tid) sys) = (s', w')"
  shows "\<exists>t'. tasks s' tid = Some t' \<and> t_status t' = CANCELLED \<and>
           in_flight (t_steps t' ! i) \<and>
           (\<forall>j. i < j \<and> j < length (t_steps t') \<longrightarrow> untouched (t_steps t' ! j)) \<and>
           t_result t' = None \<and>
           (w_pc w' = Poll i \<or> w_pc w' = Cleanup \<or> w_pc w' = Done) \<and>
           (2 \<le> count_list evs' Worker \<longrightarrow> w_pc w' = Done)"
proof -
  have inv: "inv tid sys"
    using inv_run [OF inv_start, where env = env and evs = evs] assms(1) by metis
  then obtain t where t: "tasks (fst sys) tid = Some t" and res: "t_result t = None"
    by (auto simp: inv_def inv_status_def split: option.splits)
  from inv t assms(2) have led: "ledger (w_steps (snd sys)) (t_steps t) i"
    and fl: "in_flight (t_steps t ! i)"
    by (auto simp: inv_def inv_ledger_def)
  have "cancelled_wait tid i (t_steps t) (fire env tid (Cancel tid) sys)"
    using t res assms(2) by (simp add: cancelled_wait_def after_def cancel_task_def)
  from cancelled_wait_run [OF this, of env evs'] assms(3)
  have cw: "cancelled_wait tid i (t_steps t) (s', w')"
    and rk: "halt_rank (w_pc w') \<le> 2 - count_list evs' Worker"
    using assms(2) by simp_all
  from cw obtain t' where t': "tasks s' tid = Some t'" "t_status t' = CANCELLED"
    "t_steps t' = t_steps t" "t_result t' = None"
    and pcs: "w_pc w' = Poll i \<or> w_pc w' = Cleanup \<or> w_pc w' = Done"
    by (auto simp: cancelled_wait_def split: option.splits)
  have fin: "w_pc w' = Done" if "2 \<le> count_list evs' Worker"
    using that rk pcs by auto
  show ?thesis
    using t' pcs fin fl led by (auto simp: ledger_def)
qed

theorem cancel_during_approval_wait_witness:
  "w_pc (snd (run env_fallback ''t1'' (replicate 11 Worker)
       (start ''t1'' ''demo'' ''x'' [] ''low'' empty_store))) = Poll 0 \<and>
   (\<exists>s' w' t'. run env_fallback ''t1'' [Approve ''t1'', Worker, Tick, Worker]
        (fire env_fallback ''t1'' (Cancel ''t1'') (run env_fallback ''t1'' (replicate 11 Worker)
           (start ''t1'' ''demo'' ''x'' [] ''low'' empty_store))) = (s', w') \<and>
      tasks s' ''t1'' = Some t' \<and> t_status t' = CANCELLED \<and> in_flight (t_steps t' ! 0) \<and>
      t_result t' = None \<and> w_pc w' = Done)"
proof -
  let ?sys = "run env_fallback ''t1'' (replicate 11 Worker)
       (start ''t1'' ''demo'' ''x'' [] ''low'' empty_store)"
  have pc: "w_pc (snd ?sys) = Poll 0" by (simp add: run_defs fallback_defs)
  obtain s' w' where sw: "run env_fallback ''t1'' [Approve ''t1'', Worker, Tick, Worker]
        (fire env_fallback ''t1'' (Cancel ''t1'') ?sys) = (s', w')"
    by (cases "run env_fallback ''t1'' [Approve ''t1'', Worker, Tick, Worker]
        (fire env_fallback ''t1'' (Cancel ''t1'') ?sys)")
  from cancel_during_approval_wait [OF refl pc sw]
  show ?thesis using pc sw by auto
qed

section \<open>Copies handed out by the store\<close>

lemmas ref_defs = one_step_store_def ref_create_task_def ref_add_task_step_def ref_get_task_def
  ref_get_all_tasks_def deref_def item_def element_def set_item_def set_step_status_def
  stored_step_status_def stored_status_def Let_def

text \<open>
  Claim C3 at an input on which the code departs from it. The store holds one task with
  one pending step. A caller takes the task from \<^verbatim>\<open>get_task\<close> (or from
  \<^verbatim>\<open>get_all_tasks\<close>), receives a dictionary that is not the stored one, and assigns
  \<^verbatim>\<open>failed\<close> to the status of the first step in the value it received. The step held
  in the store then reads \<^verbatim>\<open>failed\<close> too: the copy shares the list of steps and the
  step dictionaries with the store. Assigning to the status of the returned task itself
  leaves the stored task's status alone.
\<close>

theorem returned_steps_are_shared:
  "(case one_step_store of
      None \<Rightarrow> False
    | Some st \<Rightarrow>
        stored_step_status st ''t1'' 0 = Some (VStr ''pending'') \<and>
        (case ref_get_task ''t1'' st of
           None \<Rightarrow> False
         | Some (r, st') \<Rightarrow>
             map_of (task_refs st') ''t1'' \<noteq> Some r \<and>
             stored_step_status st' ''t1'' 0 = Some (VStr ''pending'') \<and>
             stored_step_status (set_step_status r 0 ''failed'' st') ''t1'' 0
               = Some (VStr ''failed'') \<and>
             stored_status (st'\<lparr>objects := set_item r ''status'' (VStr ''failed'') (objects st')\<rparr>)
               ''t1'' = Some (VStr ''pending'')) \<and>
        (case ref_get_all_tasks None st of
           (rs, st') \<Rightarrow>
             length rs = 1 \<and> map_of (task_refs st') ''t1'' \<noteq> Some (rs ! 0) \<and>
             stored_step_status (set_step_status (rs ! 0) 0 ''failed'' st') ''t1'' 0
               = Some (VStr ''failed'')))"
  by (simp add: ref_defs)

section \<open>Plan reuse\<close>

lemma similarity_at_threshold: "parameter_similarity params_a params_b = 0.8"
  unfolding params_a_def params_b_def by code_simp

text \<open>
  Claim C9, as stated, against the code: two mappings with the same two keys that agree
  on one value score exactly 0.8, and a successful prior task of the same type with that
  score is not taken for reuse, because the loop tests \<^verbatim>\<open>> 0.8\<close>.
\<close>

theorem reuse_threshold_counterexample:
  "parameter_similarity params_a params_b \<ge> 0.8 \<and>
   k_type prior_task = t_type (new_task ''t1'' ''demo'' ''x'' params_a ''low'' 0) \<and>
   k_status prior_task = ''succeeded'' \<and>
   \<not> reusable (new_task ''t1'' ''demo'' ''x'' params_a ''low'' 0) prior_task"
  using similarity_at_threshold
  by (simp add: reusable_def prior_task_def new_task_def)

text \<open>
  Claim C9, amended. For two parameter mappings that share at least one key the score is
  0.6 times the share of shared keys among all keys plus 0.4 times the share of shared
  keys with equal values (over the reals); two empty mappings score 1; two mappings
  without a shared key, not both empty, score 0. A prior task of the same type with
  status \<^verbatim>\<open>succeeded\<close> is taken for reuse exactly when the score is strictly greater
  than 0.8.
\<close>

theorem similarity_score_and_threshold:
  "(set (map fst params1) \<inter> set (map fst params2) \<noteq> {} \<longrightarrow>
      parameter_similarity params1 params2 = spec_similarity params1 params2) \<and>
   (params1 = [] \<and> params2 = [] \<longrightarrow> parameter_similarity params1 params2 = 1) \<and>
   (set (map fst params1) \<inter> set (map fst params2) = {} \<and> \<not> (params1 = [] \<and> params2 = []) \<longrightarrow>
      parameter_similarity params1 params2 = 0) \<and>
   (k_type similar_task = t_type task \<and> k_status similar_task = ''succeeded'' \<longrightarrow>
      (reusable task similar_task \<longleftrightarrow>
         parameter_similarity (t_parameters task) (k_parameters similar_task) > 0.8))"
  by (auto simp: parameter_similarity_def spec_similarity_def reusable_def Let_def)

lemma shared_keys_example: "set (map fst params_a) \<inter> set (map fst params_b) \<noteq> {}"
  by (simp add: params_a_def params_b_def)

theorem similarity_score_and_threshold_witness:
  "set (map fst params_a) \<inter> set (map fst params_b) \<noteq> {} \<and>
   parameter_similarity params_a params_b = spec_similarity params_a params_b \<and>
   parameter_similarity [] [] = 1 \<and>
   set (map fst params_a) \<inter> set (map fst [(''user'', PStr ''root'')]) = {} \<and>
   parameter_similarity params_a [(''user'', PStr ''root'')] = 0 \<and>
   k_type prior_task = t_type (new_task ''t1'' ''demo'' ''x'' params_b ''low'' 0) \<and>
   k_status prior_task = ''succeeded'' \<and>
   reusable (new_task ''t1'' ''demo'' ''x'' params_b ''low'' 0) prior_task \<and>
   parameter_similarity params_b (k_parameters prior_task) > 0.8"
proof -
  have one: "parameter_similarity params_b params_b = 1"
    unfolding params_b_def by code_simp
  have disjoint: "set (map fst params_a) \<inter> set (map fst [(''user'', PStr ''root'')]) = {}"
    "params_a \<noteq> []"
    by (simp_all add: params_a_def)
  show ?thesis
    using similarity_score_and_threshold
            [of params_a params_b prior_task "new_task ''t1'' ''demo'' ''x'' params_b ''low'' 0"]
          similarity_score_and_threshold
            [of "[]" "[]" prior_task "new_task ''t1'' ''demo'' ''x'' params_b ''low'' 0"]
          similarity_score_and_threshold
            [of params_a "[(''user'', PStr ''root'')]" prior_task
                "new_task ''t1'' ''demo'' ''x'' params_b ''low'' 0"]
          shared_keys_example one disjoint
    by (simp add: prior_task_def new_task_def)
qed

end
